theory Spec2Isabelle
  imports Complex_Main
begin

section \<open>The arithmetic sequence generator of \<^verbatim>\<open>app.py\<close>\<close>

text \<open>
  \<^verbatim>\<open>app.py\<close> holds two functions: \<^verbatim>\<open>generate_arithmetic_sequence\<close>, a loop that
  appends \<^verbatim>\<open>first_term + (i * common_difference)\<close> for \<^verbatim>\<open>i in range(num_terms)\<close>, and
  \<^verbatim>\<open>main\<close>, which validates the number of terms, calls the generator and renders the
  result through Streamlit.

  The generator is modelled twice. \<open>generate_arithmetic_sequence\<close> takes
  \<^verbatim>\<open>first_term\<close> and \<^verbatim>\<open>common_difference\<close> as real numbers and is what \<open>main\<close> builds
  the page from: it carries the statements about the length of the sequence, the layout
  of the page and the worked examples, none of which depends on rounding.
  \<open>generate_call\<close>, further down, is the call in detail: binary64 arithmetic, the
  exceptions the loop can raise, and the list as an object in a store. It carries the
  statements about the value of a term, about raising and about repeated calls. The two
  agree where no operation rounds (\<open>generate_call_integers\<close>).

  \<^verbatim>\<open>num_terms\<close> and the loop counters are Python integers, modelled as \<^typ>\<open>int\<close> (and
  \<^typ>\<open>nat\<close> for list positions, which are never negative).
\<close>

subsection \<open>Python lists\<close>

datatype py_error = IndexError

text \<open>
  \<^verbatim>\<open>xs[i]\<close>: a negative subscript is taken from the end, and a subscript outside the
  list raises IndexError.
\<close>

definition getitem :: "'a list \<Rightarrow> int \<Rightarrow> py_error + 'a" where
  "getitem xs i =
     (if 0 \<le> i \<and> i < int (length xs) then Inr (xs ! nat i)
      else if i < 0 \<and> - int (length xs) \<le> i then Inr (xs ! nat (int (length xs) + i))
      else Inl IndexError)"

text \<open>\<^verbatim>\<open>str(e)\<close> of the exception a failed subscript raises.\<close>

fun str_error :: "py_error \<Rightarrow> string" where
  "str_error IndexError = ''list index out of range''"

subsection \<open>The generator over the reals\<close>

text \<open>
  Lines 15 to 19. The \<^verbatim>\<open>for\<close> loop over \<^verbatim>\<open>range(num_terms)\<close> is the recursion
  \<open>gen_loop\<close> on the counter \<open>i\<close>, carrying the list \<^verbatim>\<open>sequence\<close> that each pass
  appends to; the function starts it at \<open>i = 0\<close> with the empty list.
\<close>

function gen_loop :: "real \<Rightarrow> real \<Rightarrow> int \<Rightarrow> int \<Rightarrow> real list \<Rightarrow> real list" where
  "gen_loop first_term common_difference num_terms i sequence =
     (if i < num_terms
      then gen_loop first_term common_difference num_terms (i + 1)
             (sequence @ [first_term + (of_int i * common_difference)])
      else sequence)"
  by pat_completeness auto
termination
  by (relation "measure (\<lambda>(first_term, common_difference, num_terms, i, sequence). nat (num_terms - i))")
     auto

declare gen_loop.simps [simp del]

definition generate_arithmetic_sequence :: "real \<Rightarrow> real \<Rightarrow> int \<Rightarrow> real list" where
  "generate_arithmetic_sequence first_term common_difference num_terms =
     gen_loop first_term common_difference num_terms 0 []"

subsection \<open>Formatted text\<close>

text \<open>
  The page is built from f-strings. Their literal parts and the decimal rendering of
  integers are modelled character by character. The two float renderings main uses,
  \<^verbatim>\<open>f"{x:g}"\<close> and \<^verbatim>\<open>f"{x}"\<close>, are built into Python and stay uninterpreted: a
  formatted float is one atom of the string, \<open>Fmt_g x\<close> or \<open>Fmt_repr x\<close>, standing for
  the characters Python prints for \<open>x\<close>. An f-string is a list of atoms, and
  concatenation of strings is \<open>@\<close>.
\<close>

datatype atom = Ch char | Fmt_g real | Fmt_repr real

type_synonym fstring = "atom list"

abbreviation lit :: "string \<Rightarrow> fstring" where
  "lit s \<equiv> map Ch s"

text \<open>\<^verbatim>\<open>str(n)\<close> of an integer, as \<^verbatim>\<open>f"{n}"\<close> prints it: decimal, with a minus sign.\<close>

fun str_nat :: "nat \<Rightarrow> string" where
  "str_nat n =
     (if n < 10 then [''0123456789'' ! n]
      else str_nat (n div 10) @ [''0123456789'' ! (n mod 10)])"

declare str_nat.simps [simp del]

definition str_int :: "int \<Rightarrow> string" where
  "str_int n = (if n < 0 then CHR ''-'' # str_nat (nat (- n)) else str_nat (nat n))"

text \<open>\<^verbatim>\<open>sep.join(parts)\<close>.\<close>

fun join :: "fstring \<Rightarrow> fstring list \<Rightarrow> fstring" where
  "join sep [] = []"
| "join sep [part] = part"
| "join sep (part # next_part # parts) = part @ sep @ join sep (next_part # parts)"

text \<open>\<^verbatim>\<open>", ".join([f"{term:g}" for term in terms])\<close>, which main writes four times.\<close>

definition comma_joined :: "real list \<Rightarrow> fstring" where
  "comma_joined terms = join (lit '', '') (map (\<lambda>term. [Fmt_g term]) terms)"

subsection \<open>The page\<close>

text \<open>
  Each Streamlit call that shows something is one element of the page, in the order of
  the calls; \<^verbatim>\<open>st.expander\<close> holds the elements shown inside its \<^verbatim>\<open>with\<close> block. The
  column layout (\<^verbatim>\<open>st.columns\<close>) places elements and is left out, and so are the static
  title and the closing notes, which do not depend on the input. The pictograph that
  starts the label of the download button is written as its four UTF-8 bytes.
\<close>

datatype element =
    Error fstring
  | Header fstring
  | Subheader fstring
  | Latex fstring
  | Metric fstring fstring
  | Code fstring
  | Write fstring
  | Text fstring
  | Expander fstring "element list"
  | Download_button (label: fstring) (data: fstring) (file_name: fstring) (mime: fstring)

text \<open>
  Lines 111 to 115, the loop \<^verbatim>\<open>for i in range(0, len(sequence), chunk_size)\<close>: one
  \<^verbatim>\<open>st.text\<close> line for the slice \<^verbatim>\<open>sequence[i:i+chunk_size]\<close>.
\<close>

definition chunk_size :: nat where
  "chunk_size = 20"

definition chunk_line :: "real list \<Rightarrow> nat \<Rightarrow> element" where
  "chunk_line sequence i =
     Text (lit ''Terms '' @ lit (str_int (int i + 1)) @ lit ''-''
           @ lit (str_int (min (int i + int chunk_size) (int (length sequence))))
           @ lit '': '' @ comma_joined (take chunk_size (drop i sequence)))"

function chunk_loop :: "real list \<Rightarrow> nat \<Rightarrow> element list" where
  "chunk_loop sequence i =
     (if i < length sequence
      then chunk_line sequence i # chunk_loop sequence (i + chunk_size)
      else [])"
  by pat_completeness auto
termination
  by (relation "measure (\<lambda>(sequence, i). length sequence - i)") (auto simp: chunk_size_def)

declare chunk_loop.simps [simp del]

text \<open>Lines 98 to 115: how the sequence itself is shown.\<close>

definition display_sequence :: "real list \<Rightarrow> element list" where
  "display_sequence sequence =
     (if length sequence \<le> 50 then [Code (comma_joined sequence)]
      else
        [Write (lit ''**First 10 terms:** '' @ comma_joined (take 10 sequence))]
        @ (if length sequence > 20
           then [Write (lit ''**Last 10 terms:** ''
                        @ comma_joined (drop (length sequence - 10) sequence))]
           else [])
        @ [Expander (lit ''Show complete sequence'') (chunk_loop sequence 0)])"

text \<open>
  Lines 119 to 126. \<^verbatim>\<open>sum(sequence)\<close> adds from the left, starting at 0. The last term
  is \<^verbatim>\<open>sequence[-1]\<close> for more than one element and \<^verbatim>\<open>sequence[0]\<close> otherwise, so it is
  the one subscript of main that can raise.
\<close>

definition sum_py :: "real list \<Rightarrow> real" where
  "sum_py sequence = foldl (+) 0 sequence"

definition last_term :: "real list \<Rightarrow> py_error + real" where
  "last_term sequence =
     (if length sequence > 1 then getitem sequence (- 1) else getitem sequence 0)"

text \<open>Lines 129 to 136: the download button, only for more than 10 terms.\<close>

definition term_line :: "nat \<times> real \<Rightarrow> fstring" where
  "term_line = (\<lambda>(i, term). lit ''Term '' @ lit (str_int (int i + 1)) @ lit '': '' @ [Fmt_g term])"

definition sequence_text :: "real list \<Rightarrow> fstring" where
  "sequence_text sequence = join (lit [CHR 0x0A]) (map term_line (enumerate 0 sequence))"

definition download :: "real \<Rightarrow> real \<Rightarrow> int \<Rightarrow> real list \<Rightarrow> element list" where
  "download first_term common_difference num_terms sequence =
     (if length sequence > 10
      then [Download_button
              (lit ([CHR 0xF0, CHR 0x9F, CHR 0x93, CHR 0xA5] @ '' Download sequence as text file''))
              (sequence_text sequence)
              (lit ''arithmetic_sequence_'' @ [Fmt_repr first_term] @ lit ''_''
               @ [Fmt_repr common_difference] @ lit ''_'' @ lit (str_int num_terms)
               @ lit ''.txt'')
              (lit ''text/plain'')]
      else [])"

text \<open>Lines 79 to 95: the heading of the results, the formula and the three inputs.\<close>

definition results_head :: "real \<Rightarrow> real \<Rightarrow> int \<Rightarrow> element list" where
  "results_head first_term common_difference num_terms =
     [Header (lit ''Generated Sequence''),
      Subheader (lit ''Formula''),
      Latex (lit ''a_n = '' @ [Fmt_repr first_term] @ lit '' + (n-1) '' @ lit [CHR 0x5C]
             @ lit ''times '' @ [Fmt_repr common_difference]),
      Metric (lit ''First Term'') [Fmt_repr first_term],
      Metric (lit ''Common Difference'') [Fmt_repr common_difference],
      Metric (lit ''Number of Terms'') (lit (str_int num_terms)),
      Subheader (lit ''Sequence'')]"

subsection \<open>main\<close>

text \<open>
  Lines 65 to 139, as a function of the three values the input widgets return. The
  bounds the widget puts on the number of terms are not assumed: main is modelled for
  every integer, as its own two checks are written. The result records what main leaves behind: \<open>generated\<close> is its local variable
  \<^verbatim>\<open>sequence\<close> (\<open>None\<close> when main returns before line 76 assigns it, that is, when the
  generator was not called), and \<open>shown\<close> is the list of elements put on the page.

  An exception inside the \<^verbatim>\<open>try\<close> block ends the block at that point: the elements
  already shown stay, the handler of line 139 adds its \<^verbatim>\<open>st.error\<close>, and the download
  button is skipped.
\<close>

record run =
  generated :: "real list option"
  shown :: "element list"

definition main :: "real \<Rightarrow> real \<Rightarrow> int \<Rightarrow> run" where
  "main first_term common_difference num_terms =
     (if num_terms \<le> 0 then
        \<lparr>generated = None,
         shown = [Error (lit ''Number of terms must be a positive integer.'')]\<rparr>
      else if num_terms > 1000 then
        \<lparr>generated = None,
         shown = [Error (lit ''Number of terms cannot exceed 1000 for performance reasons.'')]\<rparr>
      else
        let sequence = generate_arithmetic_sequence first_term common_difference num_terms;
            before_last =
              results_head first_term common_difference num_terms
              @ display_sequence sequence
              @ [Subheader (lit ''Sequence Properties''),
                 Metric (lit ''Sum of all terms'') [Fmt_g (sum_py sequence)]]
        in case last_term sequence of
             Inl e \<Rightarrow>
               \<lparr>generated = Some sequence,
                shown = before_last
                  @ [Error (lit ''An error occurred while generating the sequence: ''
                            @ lit (str_error e))]\<rparr>
           | Inr last_value \<Rightarrow>
               \<lparr>generated = Some sequence,
                shown = before_last
                  @ [Metric (lit ''Last term'') [Fmt_g last_value]]
                  @ download first_term common_difference num_terms sequence\<rparr>)"

subsection \<open>Reading the page\<close>

text \<open>
  Two observations of a page that the statements below use: the elements shown inside
  expanders (the chunk lines), and whether an element is a download button.
\<close>

fun chunks_shown :: "element list \<Rightarrow> element list" where
  "chunks_shown [] = []"
| "chunks_shown (Expander title inner # elements) = inner @ chunks_shown elements"
| "chunks_shown (element # elements) = chunks_shown elements"

fun is_download :: "element \<Rightarrow> bool" where
  "is_download (Download_button l d f m) = True"
| "is_download element = False"

section \<open>The call in detail\<close>

text \<open>
  The second model of \<^verbatim>\<open>generate_arithmetic_sequence\<close> follows one call of the function
  as Python runs it: line 17 in binary64 arithmetic, the exceptions the loop can raise,
  and the list \<^verbatim>\<open>sequence\<close> as an object in a store that the call finds and leaves.
\<close>

subsection \<open>binary64 arithmetic\<close>

text \<open>
  A Python float is a finite number, an infinity or NaN. A finite float is \<open>Finite x\<close>
  for a real \<open>x\<close> that binary64 represents; the two zeros are one value, as Python's
  \<^verbatim>\<open>==\<close> has them. The operations below return representable numbers only, and
  everything proved of them holds for every real \<open>x\<close>.
\<close>

datatype f64 = Finite real | PInf | NInf | NaN

text \<open>The nearest integer, a tie going to the even one.\<close>

definition round_half_even :: "real \<Rightarrow> int" where
  "round_half_even q =
     (if q - of_int \<lfloor>q\<rfloor> < 1 / 2 then \<lfloor>q\<rfloor>
      else if 1 / 2 < q - of_int \<lfloor>q\<rfloor> then \<lfloor>q\<rfloor> + 1
      else if even \<lfloor>q\<rfloor> then \<lfloor>q\<rfloor>
      else \<lfloor>q\<rfloor> + 1)"

text \<open>
  The binary exponent of a positive number \<open>x\<close>: the \<open>e\<close> with
  \<open>2 ^ e \<le> x < 2 ^ (e + 1)\<close>, found by halving from 1 upwards and by doubling below 1,
  and never less than \<open>- 1022\<close>, where the subnormal numbers begin.
\<close>

function exponent_above :: "real \<Rightarrow> int" where
  "exponent_above x = (if 2 \<le> x then exponent_above (x / 2) + 1 else 0)"
  by pat_completeness auto
termination
proof (relation "measure (\<lambda>x. nat \<lfloor>x\<rfloor>)")
  show "wf (measure (\<lambda>x::real. nat \<lfloor>x\<rfloor>))" by simp
next
  fix x :: real
  assume "2 \<le> x"
  then have "\<lfloor>x / 2\<rfloor> < \<lfloor>x\<rfloor>" and "0 < \<lfloor>x\<rfloor>"
    by (simp_all add: floor_less_iff less_floor_iff) linarith+
  then show "(x / 2, x) \<in> measure (\<lambda>x. nat \<lfloor>x\<rfloor>)"
    by simp
qed

function exponent_below :: "real \<Rightarrow> int \<Rightarrow> int" where
  "exponent_below x e = (if x < 1 \<and> - 1022 < e then exponent_below (2 * x) (e - 1) else e)"
  by pat_completeness auto
termination
  by (relation "measure (\<lambda>(x, e). nat (e + 1022))") auto

declare exponent_above.simps [simp del] exponent_below.simps [simp del]

definition exponent :: "real \<Rightarrow> int" where
  "exponent x = (if 1 \<le> x then exponent_above x else exponent_below x 0)"

text \<open>
  Between \<open>2 ^ e\<close> and \<open>2 ^ (e + 1)\<close> the floats are the multiples of
  \<open>2 ^ (e - 52)\<close>. Rounding a positive number takes the nearest multiple, a tie going
  to the even one; a result of \<open>2 ^ 1024\<close> or more is an infinity.
\<close>

definition ulp :: "real \<Rightarrow> real" where
  "ulp a = 2 powi (exponent a - 52)"

definition round_magnitude :: "real \<Rightarrow> real" where
  "round_magnitude a = of_int (round_half_even (a / ulp a)) * ulp a"

definition round_f64 :: "real \<Rightarrow> f64" where
  "round_f64 x =
     (if x = 0 then Finite 0
      else if 2 ^ 1024 \<le> round_magnitude \<bar>x\<bar> then (if 0 < x then PInf else NInf)
      else Finite (if 0 < x then round_magnitude \<bar>x\<bar> else - round_magnitude \<bar>x\<bar>))"

text \<open>
  \<^verbatim>\<open>x + y\<close> and \<open>x * y\<close> on floats: the exact result rounded, with the cases of
  IEEE 754 for infinities and NaN. Neither raises.
\<close>

fun fadd :: "f64 \<Rightarrow> f64 \<Rightarrow> f64" where
  "fadd (Finite x) (Finite y) = round_f64 (x + y)"
| "fadd NaN y = NaN"
| "fadd x NaN = NaN"
| "fadd PInf NInf = NaN"
| "fadd NInf PInf = NaN"
| "fadd PInf y = PInf"
| "fadd x PInf = PInf"
| "fadd NInf y = NInf"
| "fadd x NInf = NInf"

fun fmul :: "f64 \<Rightarrow> f64 \<Rightarrow> f64" where
  "fmul (Finite x) (Finite y) = round_f64 (x * y)"
| "fmul NaN y = NaN"
| "fmul x NaN = NaN"
| "fmul (Finite x) PInf = (if x = 0 then NaN else if 0 < x then PInf else NInf)"
| "fmul (Finite x) NInf = (if x = 0 then NaN else if 0 < x then NInf else PInf)"
| "fmul PInf (Finite y) = (if y = 0 then NaN else if 0 < y then PInf else NInf)"
| "fmul NInf (Finite y) = (if y = 0 then NaN else if 0 < y then NInf else PInf)"
| "fmul PInf PInf = PInf"
| "fmul PInf NInf = NInf"
| "fmul NInf PInf = NInf"
| "fmul NInf NInf = PInf"

subsection \<open>What the loop can raise\<close>

text \<open>
  In \<^verbatim>\<open>i * common_difference\<close> the integer \<open>i\<close> is first converted to a float, rounded
  to nearest; an integer too large for a float raises OverflowError. \<open>float_limit\<close> is
  the first integer for which that happens, as \<open>float_of_int_finite\<close> and
  \<open>float_of_int_overflow\<close> show. \<^verbatim>\<open>sequence.append\<close> raises MemoryError when the list
  cannot grow.
\<close>

datatype raised = OverflowError | MemoryError

definition float_of_int :: "int \<Rightarrow> raised + f64" where
  "float_of_int i =
     (case round_f64 (of_int i) of Finite x \<Rightarrow> Inr (Finite x) | _ \<Rightarrow> Inl OverflowError)"

definition float_limit :: int where
  "float_limit = 2 ^ 1024 - 2 ^ 970"

text \<open>Line 17, \<^verbatim>\<open>term = first_term + (i * common_difference)\<close>.\<close>

definition term_of :: "f64 \<Rightarrow> f64 \<Rightarrow> int \<Rightarrow> raised + f64" where
  "term_of first_term common_difference i =
     (case float_of_int i of
        Inl e \<Rightarrow> Inl e
      | Inr x \<Rightarrow> Inr (fadd first_term (fmul x common_difference)))"

subsection \<open>The call\<close>

text \<open>
  The store holds the list objects that exist, each at its position. Line 15 makes a
  new, empty list at the end of the store; line 18 appends to that object in place; line
  19 returns its position. How many elements the list can take before memory runs out
  depends on the machine and on the run, so it is a parameter, \<open>room\<close>. An exception
  ends the call and leaves the store as it is at that point.
\<close>

type_synonym store = "f64 list list"

function call_loop ::
  "nat \<Rightarrow> f64 \<Rightarrow> f64 \<Rightarrow> int \<Rightarrow> int \<Rightarrow> nat \<Rightarrow> store \<Rightarrow> (raised + nat) \<times> store" where
  "call_loop room first_term common_difference num_terms i sequence store =
     (if i < num_terms then
        case term_of first_term common_difference i of
          Inl e \<Rightarrow> (Inl e, store)
        | Inr term \<Rightarrow>
            if length (store ! sequence) < room
            then call_loop room first_term common_difference num_terms (i + 1) sequence
                   (store[sequence := store ! sequence @ [term]])
            else (Inl MemoryError, store)
      else (Inr sequence, store))"
  by pat_completeness auto
termination
  by (relation "measure (\<lambda>(room, first_term, common_difference, num_terms, i, sequence, store).
        nat (num_terms - i))") auto

declare call_loop.simps [simp del]

definition generate_call :: "nat \<Rightarrow> f64 \<Rightarrow> f64 \<Rightarrow> int \<Rightarrow> store \<Rightarrow> (raised + nat) \<times> store" where
  "generate_call room first_term common_difference num_terms store =
     call_loop room first_term common_difference num_terms 0 (length store) (store @ [[]])"

text \<open>What the caller gets: the exception, or the list the returned position holds.\<close>

fun returned :: "(raised + nat) \<times> store \<Rightarrow> raised + f64 list" where
  "returned (Inl e, store) = Inl e"
| "returned (Inr sequence, store) = Inr (store ! sequence)"

section \<open>Facts used by the claims\<close>

subsection \<open>Facts about the generator loop\<close>

lemma gen_loop_done:
  "num_terms \<le> i \<Longrightarrow> gen_loop first_term common_difference num_terms i sequence = sequence"
  by (subst gen_loop.simps) simp

lemma gen_loop_step:
  "i < num_terms \<Longrightarrow>
   gen_loop first_term common_difference num_terms i sequence =
   gen_loop first_term common_difference num_terms (i + 1)
     (sequence @ [first_term + (of_int i * common_difference)])"
  by (subst gen_loop.simps) simp

lemma gen_loop_closed:
  "gen_loop first_term common_difference num_terms i sequence =
   sequence @ map (\<lambda>k. first_term + of_int k * common_difference) [i..num_terms - 1]"
proof (induction first_term common_difference num_terms i sequence rule: gen_loop.induct)
  case (1 first_term common_difference num_terms i sequence)
  show ?case
  proof (cases "i < num_terms")
    case True
    then have "[i..num_terms - 1] = i # [i + 1..num_terms - 1]"
      by (simp add: upto_rec1)
    with True "1.IH" show ?thesis
      by (simp add: gen_loop_step)
  next
    case False
    then show ?thesis
      by (simp add: gen_loop_done)
  qed
qed

lemma generate_closed:
  "generate_arithmetic_sequence first_term common_difference num_terms =
   map (\<lambda>k. first_term + of_int k * common_difference) [0..num_terms - 1]"
  by (simp add: generate_arithmetic_sequence_def gen_loop_closed)

lemma length_generate:
  "length (generate_arithmetic_sequence first_term common_difference num_terms) = nat num_terms"
  by (simp add: generate_closed)

lemma nth_generate:
  assumes "k < nat num_terms"
  shows "generate_arithmetic_sequence first_term common_difference num_terms ! k =
         first_term + of_nat k * common_difference"
proof -
  from assms have le: "0 + int k \<le> num_terms - 1" by simp
  have "k < length [0..num_terms - 1]"
    using assms by simp
  then have "generate_arithmetic_sequence first_term common_difference num_terms ! k =
             first_term + of_int ([0..num_terms - 1] ! k) * common_difference"
    by (simp add: generate_closed)
  also have "[0..num_terms - 1] ! k = int k"
    using nth_upto [OF le] by simp
  finally show ?thesis by simp
qed

lemma getitem_generate:
  assumes "0 \<le> i" and "i < num_terms"
  shows "getitem (generate_arithmetic_sequence first_term common_difference num_terms) i =
         Inr (first_term + of_int i * common_difference)"
proof -
  from assms have "nat i < nat num_terms" by simp
  then have "generate_arithmetic_sequence first_term common_difference num_terms ! nat i =
             first_term + of_nat (nat i) * common_difference"
    by (rule nth_generate)
  with assms show ?thesis
    by (simp add: getitem_def length_generate)
qed

lemma last_term_generate:
  assumes "1 \<le> num_terms"
  shows "last_term (generate_arithmetic_sequence first_term common_difference num_terms) =
         Inr (first_term + of_int (num_terms - 1) * common_difference)"
proof (cases "num_terms = 1")
  case True
  then show ?thesis
    using getitem_generate [of 0 num_terms first_term common_difference]
    by (simp add: last_term_def length_generate)
next
  case False
  with assms have many: "1 < num_terms" by simp
  let ?s = "generate_arithmetic_sequence first_term common_difference num_terms"
  from many have "nat (num_terms - 1) < nat num_terms" by simp
  then have "?s ! nat (num_terms - 1) = first_term + of_nat (nat (num_terms - 1)) * common_difference"
    by (rule nth_generate)
  with many show ?thesis
    by (simp add: last_term_def getitem_def length_generate)
qed

lemma generate_one: "generate_arithmetic_sequence first_term common_difference 1 = [first_term]"
  by (simp add: generate_arithmetic_sequence_def gen_loop_step gen_loop_done)

lemma main_rejects_nonpositive:
  "num_terms \<le> 0 \<Longrightarrow>
   main first_term common_difference num_terms =
   \<lparr>generated = None,
    shown = [Error (lit ''Number of terms must be a positive integer.'')]\<rparr>"
  by (simp add: main_def)

lemma main_rejects_large:
  "1000 < num_terms \<Longrightarrow>
   main first_term common_difference num_terms =
   \<lparr>generated = None,
    shown = [Error (lit ''Number of terms cannot exceed 1000 for performance reasons.'')]\<rparr>"
  by (simp add: main_def)

lemma main_valid:
  assumes "1 \<le> num_terms" and "num_terms \<le> 1000"
  shows "main first_term common_difference num_terms =
         \<lparr>generated = Some (generate_arithmetic_sequence first_term common_difference num_terms),
          shown =
            results_head first_term common_difference num_terms
            @ display_sequence (generate_arithmetic_sequence first_term common_difference num_terms)
            @ [Subheader (lit ''Sequence Properties''),
               Metric (lit ''Sum of all terms'')
                 [Fmt_g (sum_py (generate_arithmetic_sequence first_term common_difference num_terms))],
               Metric (lit ''Last term'')
                 [Fmt_g (first_term + of_int (num_terms - 1) * common_difference)]]
            @ download first_term common_difference num_terms
                (generate_arithmetic_sequence first_term common_difference num_terms)\<rparr>"
proof -
  have "last_term (generate_arithmetic_sequence first_term common_difference num_terms) =
        Inr (first_term + of_int (num_terms - 1) * common_difference)"
    using assms(1) by (rule last_term_generate)
  with assms show ?thesis
    by (simp add: main_def Let_def)
qed

subsection \<open>Facts about the chunk loop\<close>

lemma chunk_loop_done: "length sequence \<le> i \<Longrightarrow> chunk_loop sequence i = []"
  by (subst chunk_loop.simps) simp

lemma chunk_loop_step:
  "i < length sequence \<Longrightarrow>
   chunk_loop sequence i = chunk_line sequence i # chunk_loop sequence (i + chunk_size)"
  by (subst chunk_loop.simps) simp

lemma chunk_count_step:
  assumes "i < (n::nat)"
  shows "(n - i + 19) div 20 = Suc ((n - (i + 20) + 19) div 20)"
proof (cases "i + 20 \<le> n")
  case True
  then have "n - i + 19 = (n - (i + 20) + 19) + 20" by simp
  then show ?thesis by (simp only: div_add_self2)
next
  case False
  define q where "q = n - i + 19"
  from False assms have "20 * 1 \<le> q" and "q < 20 * Suc 1"
    unfolding q_def by arith+
  then have "q div 20 = 1"
    by (rule div_nat_eqI)
  moreover from False have "(n - (i + 20) + 19) div 20 = 0"
    by simp
  ultimately show ?thesis
    unfolding q_def by simp
qed

lemma chunk_loop_closed:
  "chunk_loop sequence i =
   map (\<lambda>k. chunk_line sequence (i + 20 * k)) [0..<(length sequence - i + 19) div 20]"
proof (induction sequence i rule: chunk_loop.induct)
  case (1 sequence i)
  show ?case
  proof (cases "i < length sequence")
    case True
    define m where "m = (length sequence - (i + 20) + 19) div 20"
    from True have count: "(length sequence - i + 19) div 20 = Suc m"
      unfolding m_def by (rule chunk_count_step)
    have "chunk_loop sequence i = chunk_line sequence i # chunk_loop sequence (i + 20)"
      using True by (simp add: chunk_loop_step chunk_size_def)
    also have "chunk_loop sequence (i + 20) =
               map (\<lambda>k. chunk_line sequence (i + 20 + 20 * k)) [0..<m]"
      using "1.IH" [OF True] by (simp add: chunk_size_def m_def)
    also have "chunk_line sequence i # map (\<lambda>k. chunk_line sequence (i + 20 + 20 * k)) [0..<m] =
               map (\<lambda>k. chunk_line sequence (i + 20 * k)) [0..<Suc m]"
    proof -
      have "[0..<Suc m] = 0 # map Suc [0..<m]"
        by (simp only: map_Suc_upt upt_conv_Cons [OF zero_less_Suc])
      then show ?thesis
        by (simp add: comp_def add.assoc)
    qed
    finally show ?thesis
      by (simp only: count)
  next
    case False
    then show ?thesis
      by (simp add: chunk_loop_done)
  qed
qed

lemma chunks_cover_prefix:
  "concat (map (\<lambda>k. take 20 (drop (20 * k) sequence)) [0..<m]) = take (20 * m) sequence"
proof (induction m)
  case 0
  then show ?case by simp
next
  case (Suc m)
  have "take (20 * m + 20) sequence = take (20 * m) sequence @ take 20 (drop (20 * m) sequence)"
    by (rule take_add)
  with Suc show ?case by (simp add: add.commute)
qed

lemma chunks_cover:
  "concat (map (\<lambda>k. take 20 (drop (20 * k) sequence)) [0..<(length sequence + 19) div 20]) = sequence"
proof -
  have "length sequence \<le> 20 * ((length sequence + 19) div 20)"
    by (simp add: algebra_simps)
  then show ?thesis
    by (simp add: chunks_cover_prefix)
qed

subsection \<open>Facts about the page\<close>

lemma str_int_labels:
  "str_int 1 = ''1''" "str_int 20 = ''20''" "str_int 21 = ''21''" "str_int 40 = ''40''"
  "str_int 41 = ''41''" "str_int 45 = ''45''"
  by (simp_all add: str_int_def str_nat.simps)

lemma no_download_in_head:
  "filter is_download (results_head first_term common_difference num_terms) = []"
  by (simp add: results_head_def)

lemma no_download_in_display: "filter is_download (display_sequence sequence) = []"
  by (simp add: display_sequence_def)

lemma filter_download:
  "filter is_download (download first_term common_difference num_terms sequence) =
   download first_term common_difference num_terms sequence"
  by (simp add: download_def)

lemma sequence_text_generate:
  "sequence_text (generate_arithmetic_sequence first_term common_difference num_terms) =
   join (lit [CHR 0x0A])
     (map (\<lambda>k. lit ''Term '' @ lit (str_int (int k + 1)) @ lit '': ''
                 @ [Fmt_g (first_term + of_nat k * common_difference)])
        [0..<nat num_terms])"
proof -
  have "map term_line (enumerate 0 (generate_arithmetic_sequence first_term common_difference num_terms)) =
        map (\<lambda>k. lit ''Term '' @ lit (str_int (int k + 1)) @ lit '': ''
                 @ [Fmt_g (first_term + of_nat k * common_difference)])
        [0..<nat num_terms]"
    by (rule nth_equalityI)
       (simp_all add: length_generate nth_enumerate_eq nth_generate term_line_def)
  then show ?thesis
    by (simp add: sequence_text_def)
qed

lemma display_short:
  "length sequence \<le> 50 \<Longrightarrow> display_sequence sequence = [Code (comma_joined sequence)]"
  by (simp add: display_sequence_def)

lemma display_long:
  assumes "50 < length sequence"
  shows "display_sequence sequence =
         [Write (lit ''**First 10 terms:** '' @ comma_joined (take 10 sequence)),
          Write (lit ''**Last 10 terms:** ''
                 @ comma_joined (drop (length sequence - 10) sequence)),
          Expander (lit ''Show complete sequence'')
            (map (\<lambda>k. chunk_line sequence (20 * k)) [0..<(length sequence + 19) div 20])]"
  using assms chunk_loop_closed [of sequence 0]
  by (simp add: display_sequence_def)

lemma length_45:
  "length (generate_arithmetic_sequence first_term common_difference 45) = 45"
  by (simp add: length_generate)

section \<open>Facts about the call in detail\<close>

subsection \<open>The binary exponent\<close>

lemma pow2_plus1: "(2::real) powi (e + 1) = 2 * 2 powi e"
  by (simp add: power_int_add)

lemma exponent_above_spec:
  "1 \<le> x \<Longrightarrow>
   0 \<le> exponent_above x \<and> 2 powi exponent_above x \<le> x \<and> x < 2 powi (exponent_above x + 1)"
proof (induction x rule: exponent_above.induct)
  case (1 x)
  show ?case
  proof (cases "2 \<le> x")
    case True
    then have "1 \<le> x / 2" by simp
    with "1.IH" [OF True] have ih: "0 \<le> exponent_above (x / 2)"
      "2 powi exponent_above (x / 2) \<le> x / 2" "x / 2 < 2 powi (exponent_above (x / 2) + 1)"
      by simp_all
    have unfold: "exponent_above x = exponent_above (x / 2) + 1"
      using True by (subst exponent_above.simps) simp
    from ih show ?thesis
      unfolding unfold by (simp only: pow2_plus1) simp
  next
    case False
    then have "exponent_above x = 0"
      by (subst exponent_above.simps) simp
    with False "1.prems" show ?thesis by simp
  qed
qed

lemma exponent_below_spec:
  "0 < x \<Longrightarrow> x < 2 \<Longrightarrow> - 1022 \<le> e \<Longrightarrow>
   - 1022 \<le> exponent_below x e \<and> exponent_below x e \<le> e
   \<and> x * 2 powi (e - exponent_below x e) < 2
   \<and> (1 \<le> x * 2 powi (e - exponent_below x e) \<or> exponent_below x e = - 1022)"
proof (induction x e rule: exponent_below.induct)
  case (1 x e)
  show ?case
  proof (cases "x < 1 \<and> - 1022 < e")
    case True
    have unfold: "exponent_below x e = exponent_below (2 * x) (e - 1)"
      using True by (subst exponent_below.simps) simp
    from True "1.prems" have "0 < 2 * x" "2 * x < 2" "- 1022 \<le> e - 1"
      by simp_all
    from "1.IH" [OF True this] have ih:
      "- 1022 \<le> exponent_below (2 * x) (e - 1)" "exponent_below (2 * x) (e - 1) \<le> e - 1"
      "2 * x * 2 powi (e - 1 - exponent_below (2 * x) (e - 1)) < 2"
      "1 \<le> 2 * x * 2 powi (e - 1 - exponent_below (2 * x) (e - 1))
       \<or> exponent_below (2 * x) (e - 1) = - 1022"
      by simp_all
    have "(2::real) powi (e - exponent_below (2 * x) (e - 1)) =
          2 * 2 powi (e - 1 - exponent_below (2 * x) (e - 1))"
      using power_int_add [of "2::real" 1 "e - 1 - exponent_below (2 * x) (e - 1)"]
      by (simp add: algebra_simps)
    with ih show ?thesis
      unfolding unfold by (simp add: algebra_simps)
  next
    case False
    then have "exponent_below x e = e"
      by (subst exponent_below.simps) auto
    with False "1.prems" show ?thesis by auto
  qed
qed

lemma exponent_spec:
  assumes "0 < x"
  shows "- 1022 \<le> exponent x" and "x < 2 powi (exponent x + 1)"
    and "2 powi exponent x \<le> x \<or> exponent x = - 1022"
proof -
  show "- 1022 \<le> exponent x"
    using assms exponent_above_spec [of x] exponent_below_spec [of x 0]
    by (cases "1 \<le> x") (simp_all add: exponent_def)
  show "x < 2 powi (exponent x + 1)"
  proof (cases "1 \<le> x")
    case True
    then show ?thesis
      using exponent_above_spec [of x] by (simp add: exponent_def)
  next
    case False
    let ?e = "exponent_below x 0"
    from False assms have "x * 2 powi (0 - ?e) < 2"
      using exponent_below_spec [of x 0] by simp
    moreover have "x * 2 powi (0 - ?e) * 2 powi ?e = x"
      by (simp add: power_int_minus)
    moreover have "(2::real) powi (?e + 1) = 2 * 2 powi ?e"
      by (simp add: power_int_add)
    ultimately have "x < 2 powi (?e + 1)"
      by (metis mult.commute mult_less_cancel_right_pos zero_less_numeral zero_less_power_int)
    with False show ?thesis by (simp add: exponent_def)
  qed
  show "2 powi exponent x \<le> x \<or> exponent x = - 1022"
  proof (cases "1 \<le> x")
    case True
    then show ?thesis
      using exponent_above_spec [of x] by (simp add: exponent_def)
  next
    case False
    let ?e = "exponent_below x 0"
    from False assms have "1 \<le> x * 2 powi (0 - ?e) \<or> ?e = - 1022"
      using exponent_below_spec [of x 0] by simp
    then show ?thesis
    proof
      assume "1 \<le> x * 2 powi (0 - ?e)"
      then have "2 powi ?e \<le> x"
        by (simp add: power_int_minus field_simps)
      with False show ?thesis by (simp add: exponent_def)
    next
      assume "?e = - 1022"
      with False show ?thesis by (simp add: exponent_def)
    qed
  qed
qed

subsection \<open>Rounding to an integer\<close>

lemma round_half_even_close: "\<bar>of_int (round_half_even q) - q\<bar> \<le> 1 / 2"
proof -
  have "of_int \<lfloor>q\<rfloor> \<le> q" and "q < of_int \<lfloor>q\<rfloor> + 1"
    by linarith+
  then show ?thesis
    by (auto simp: round_half_even_def)
qed

lemma round_half_even_of_int: "round_half_even (of_int k) = k"
  by (simp add: round_half_even_def)

lemma round_half_even_below:
  assumes "q < of_int m - 1 / 2"
  shows "round_half_even q < m"
proof -
  have "of_int (round_half_even q) < (of_int m :: real)"
    using round_half_even_close [of q] assms by linarith
  then show ?thesis by simp
qed

lemma round_half_even_above:
  assumes "of_int m - 1 / 2 \<le> q" and "even m"
  shows "m \<le> round_half_even q"
proof (cases "of_int m - 1 / 2 < q")
  case True
  then have "(of_int m :: real) - 1 < of_int (round_half_even q)"
    using round_half_even_close [of q] by linarith
  then have "m - 1 < round_half_even q"
    by (metis of_int_1 of_int_diff of_int_less_iff)
  then show ?thesis by simp
next
  case False
  with assms have q: "q = of_int (m - 1) + 1 / 2" by simp
  then have fl: "\<lfloor>q\<rfloor> = m - 1"
    by (simp add: floor_unique)
  from assms(2) have "odd (m - 1)" by simp
  with fl q show ?thesis
    by (simp add: round_half_even_def)
qed

subsection \<open>The error of one rounding\<close>

lemma ulp_pos: "0 < ulp a"
  by (simp add: ulp_def)

lemma scaled_rounding_error:
  fixes a u :: real
  assumes "0 < u"
  shows "\<bar>of_int (round_half_even (a / u)) * u - a\<bar> \<le> u / 2"
proof -
  have "\<bar>of_int (round_half_even (a / u)) - a / u\<bar> * u \<le> 1 / 2 * u"
    using assms round_half_even_close [of "a / u"] by (intro mult_right_mono) simp_all
  moreover have "\<bar>of_int (round_half_even (a / u)) - a / u\<bar> * u =
                 \<bar>(of_int (round_half_even (a / u)) - a / u) * u\<bar>"
    using assms by (simp add: abs_mult_pos)
  moreover have "(of_int (round_half_even (a / u)) - a / u) * u =
                 of_int (round_half_even (a / u)) * u - a"
    using assms by (simp add: left_diff_distrib)
  ultimately show ?thesis by simp
qed

lemma round_magnitude_error:
  assumes "0 < a"
  shows "\<bar>round_magnitude a - a\<bar> \<le> a / 2 ^ 53 + 1 / 2 ^ 1075"
proof -
  define bound :: real where "bound = 2 powi exponent a / 2 ^ 53"
  define relative :: real where "relative = a / 2 ^ 53"
  define tiny :: real where "tiny = 1 / 2 ^ 1075"
  have near: "\<bar>round_magnitude a - a\<bar> \<le> ulp a / 2"
    unfolding round_magnitude_def using ulp_pos by (rule scaled_rounding_error)
  have half: "ulp a / 2 = bound"
    using power_int_diff [of "2::real" "exponent a" 52]
    by (simp add: ulp_def bound_def)
  have nonneg: "0 \<le> relative" "0 \<le> tiny"
    using assms by (simp_all add: relative_def tiny_def)
  have "bound \<le> relative + tiny"
  proof -
    from exponent_spec(3) [OF assms] consider "2 powi exponent a \<le> a" | "exponent a = - 1022"
      by blast
    then show ?thesis
    proof cases
      case 1
      then have "bound \<le> relative"
        unfolding bound_def relative_def by (simp add: divide_right_mono)
      with nonneg show ?thesis by linarith
    next
      case 2
      have "(2::real) powi (- 1022) / 2 ^ 53 = 1 / 2 ^ 1075"
        by (simp add: power_int_minus field_simps)
      with 2 have "bound = tiny"
        unfolding bound_def tiny_def by simp
      with nonneg show ?thesis by linarith
    qed
  qed
  with near half show ?thesis
    unfolding relative_def tiny_def by linarith
qed

lemma round_f64_error:
  assumes "round_f64 x = Finite z"
  shows "\<bar>z - x\<bar> \<le> \<bar>x\<bar> / 2 ^ 53 + 1 / 2 ^ 1075"
proof (cases "x = 0")
  case True
  with assms show ?thesis by (simp add: round_f64_def)
next
  case False
  then have ax: "0 < \<bar>x\<bar>" by simp
  from assms False have z: "z = (if 0 < x then round_magnitude \<bar>x\<bar> else - round_magnitude \<bar>x\<bar>)"
    by (simp add: round_f64_def split: if_splits)
  then have "\<bar>z - x\<bar> = abs (round_magnitude (abs x) - abs x)"
    using False by (cases "0 < x") simp_all
  with round_magnitude_error [OF ax] show ?thesis by simp
qed

subsection \<open>Integers that convert exactly, and the first that does not convert\<close>

lemma pow2_less_imp: "(2::real) powi m < 2 powi n \<Longrightarrow> m < n"
  using power_int_increasing [of n m "2::real"] by (cases "m < n") simp_all

lemma exponent_eq:
  assumes "- 1022 \<le> e" and "2 powi e \<le> x" and "x < 2 powi (e + 1)"
  shows "exponent x = e"
proof -
  have pos: "0 < x"
    using assms(2) zero_less_power_int [of "2::real" e] by linarith
  from exponent_spec(2) [OF pos] assms(2) have "2 powi e < (2::real) powi (exponent x + 1)"
    by linarith
  then have le: "e \<le> exponent x"
    using pow2_less_imp by fastforce
  from exponent_spec(3) [OF pos] have "exponent x \<le> e"
  proof
    assume "2 powi exponent x \<le> x"
    with assms(3) have "2 powi exponent x < (2::real) powi (e + 1)" by linarith
    then show ?thesis using pow2_less_imp by fastforce
  next
    assume "exponent x = - 1022"
    with assms(1) show ?thesis by simp
  qed
  with le show ?thesis by simp
qed

lemma exponent_of_int_bounds:
  assumes "1 \<le> k"
  shows "0 \<le> exponent (of_int k)" and "2 powi exponent (of_int k) \<le> (of_int k :: real)"
    and "(of_int k :: real) < 2 powi (exponent (of_int k) + 1)"
  using assms exponent_above_spec [of "of_int k"] by (simp_all add: exponent_def)

lemma pow2_negative: "(2::real) powi (- int m) = 1 / 2 ^ m"
  by (simp add: power_int_minus field_simps)

lemma of_int_le_pow2: "k \<le> 2 ^ n \<Longrightarrow> (of_int k :: real) \<le> 2 ^ n"
proof -
  assume "k \<le> 2 ^ n"
  then have "(of_int k :: real) \<le> of_int (2 ^ n)"
    by (simp only: of_int_le_iff)
  then show ?thesis by simp
qed

lemma round_magnitude_exact:
  assumes "1 \<le> k" and "k \<le> 2 ^ 53"
  shows "round_magnitude (of_int k) = of_int k"
proof -
  define e where "e = exponent (of_int k :: real)"
  have e0: "0 \<le> e" and lo: "2 powi e \<le> (of_int k :: real)"
    unfolding e_def using exponent_of_int_bounds [OF assms(1)] by simp_all
  have hi: "(of_int k :: real) \<le> 2 ^ 53"
    using assms(2) by (rule of_int_le_pow2)
  have "(2::real) powi e \<le> 2 powi 53"
    using lo hi by simp
  then have e53: "e \<le> 53"
    by (rule power_int_le_imp_le_exp [rotated]) simp_all
  show ?thesis
  proof (cases "e \<le> 52")
    case True
    define m where "m = nat (52 - e)"
    from True have "e - 52 = - int m" by (simp add: m_def)
    then have u: "ulp (of_int k) = 1 / 2 ^ m"
      by (simp only: ulp_def e_def [symmetric] pow2_negative)
    have "of_int k / ulp (of_int k) = (of_int (k * 2 ^ m) :: real)"
      by (simp add: u)
    then have "round_half_even (of_int k / ulp (of_int k)) = k * 2 ^ m"
      by (simp only: round_half_even_of_int)
    then have "round_magnitude (of_int k) = of_int (k * 2 ^ m) * (1 / 2 ^ m)"
      by (simp only: round_magnitude_def u)
    then show ?thesis by simp
  next
    case False
    with e53 have e: "e = 53" by simp
    with lo have "(2::real) ^ 53 \<le> of_int k" by simp
    with hi have k: "(of_int k :: real) = 2 ^ 53" by linarith
    have u: "ulp (of_int k) = 2"
      using e by (simp add: ulp_def e_def [symmetric])
    have "of_int k / ulp (of_int k) = (of_int k :: real) / 2"
      by (simp only: u)
    also have "\<dots> = (of_int (2 ^ 52) :: real)"
      by (simp add: k)
    finally have "of_int k / ulp (of_int k) = (of_int (2 ^ 52) :: real)" .
    then have "round_half_even (of_int k / ulp (of_int k)) = 2 ^ 52"
      by (simp only: round_half_even_of_int)
    then have "round_magnitude (of_int k) = of_int (2 ^ 52) * 2"
      by (simp only: round_magnitude_def u)
    with k show ?thesis by simp
  qed
qed

lemma exponent_ge1_bounds:
  assumes "1 \<le> x"
  shows "0 \<le> exponent x" and "2 powi exponent x \<le> x" and "x < 2 powi (exponent x + 1)"
  using assms exponent_above_spec [of x] by (simp_all add: exponent_def)

lemma ulp_times_pow2_53: "2 ^ 53 * ulp x = 2 powi (exponent x + 1)"
proof -
  have "exponent x + 1 = 53 + (exponent x - 52)" by simp
  then have "(2::real) powi (exponent x + 1) = 2 powi 53 * 2 powi (exponent x - 52)"
    by (simp only: power_int_add [of "2::real", simplified])
  then show ?thesis by (simp add: ulp_def)
qed

lemma ulp_times_pow2_52: "2 ^ 52 * ulp x = 2 powi exponent x"
proof -
  have "exponent x = 52 + (exponent x - 52)" by simp
  then have "(2::real) powi exponent x = 2 powi 52 * 2 powi (exponent x - 52)"
    by (metis power_int_add [of "2::real", simplified])
  then show ?thesis by (simp add: ulp_def)
qed

lemma of_int_pow2: "(of_int (2 ^ n) :: real) = 2 ^ n"
  by simp

lemma round_magnitude_le:
  assumes "x / ulp x < of_int m + 1 / 2"
  shows "round_magnitude x \<le> of_int m * ulp x"
proof -
  from assms have "x / ulp x < of_int (m + 1) - 1 / 2" by simp
  then have "round_half_even (x / ulp x) < m + 1"
    by (rule round_half_even_below)
  then have "(of_int (round_half_even (x / ulp x)) :: real) \<le> of_int m"
    by simp
  then show ?thesis
    unfolding round_magnitude_def using ulp_pos [of x] by (intro mult_right_mono) simp_all
qed

lemma round_magnitude_ge:
  assumes "of_int m - 1 / 2 \<le> x / ulp x" and "even m"
  shows "of_int m * ulp x \<le> round_magnitude x"
proof -
  from assms have "m \<le> round_half_even (x / ulp x)"
    by (rule round_half_even_above)
  then have "(of_int m :: real) \<le> of_int (round_half_even (x / ulp x))"
    by simp
  then show ?thesis
    unfolding round_magnitude_def using ulp_pos [of x] by (intro mult_right_mono) simp_all
qed

lemma round_magnitude_finite:
  assumes "1 \<le> x" and "x < 2 ^ 1024 - 2 ^ 970"
  shows "round_magnitude x < 2 ^ 1024"
proof -
  define e where "e = exponent x"
  have lo: "2 powi e \<le> x" and hi: "x < 2 powi (e + 1)"
    unfolding e_def using exponent_ge1_bounds [OF assms(1)] by simp_all
  from assms(2) have "x < 2 powi 1024" by simp
  with lo have "(2::real) powi e < 2 powi 1024" by linarith
  then have e_top: "e \<le> 1023"
    using pow2_less_imp by fastforce
  show ?thesis
  proof (cases "e = 1023")
    case True
    then have u: "ulp x = 2 ^ 971"
      by (simp add: ulp_def e_def [symmetric])
    have "(2 ^ 1024 - 2 ^ 970) / (2::real) ^ 971 = 2 ^ 53 - 1 / 2"
      by (simp add: field_simps)
    moreover from assms(2) have "x / 2 ^ 971 < (2 ^ 1024 - 2 ^ 970) / (2::real) ^ 971"
      by (simp add: divide_strict_right_mono)
    ultimately have "x / ulp x < of_int (2 ^ 53 - 1) + 1 / 2"
      by (simp add: u)
    then have "round_magnitude x \<le> of_int (2 ^ 53 - 1) * ulp x"
      by (rule round_magnitude_le)
    also have "\<dots> < 2 ^ 1024"
      by (simp add: u)
    finally show ?thesis .
  next
    case False
    with e_top have small: "e + 1 \<le> 1023" by simp
    from hi have "x / ulp x < 2 powi (e + 1) / ulp x"
      using ulp_pos [of x] by (simp add: divide_strict_right_mono)
    also have "\<dots> = 2 ^ 53"
      using ulp_times_pow2_53 [of x] ulp_pos [of x] by (simp add: e_def field_simps)
    finally have "x / ulp x < 2 ^ 53" .
    then have "x / ulp x < of_int (2 ^ 53) + 1 / 2"
      unfolding of_int_pow2 by linarith
    then have "round_magnitude x \<le> of_int (2 ^ 53) * ulp x"
      by (rule round_magnitude_le)
    also have "\<dots> = 2 powi (e + 1)"
      using ulp_times_pow2_53 [of x] by (simp add: e_def)
    also have "\<dots> \<le> 2 powi 1023"
      using small by (intro power_int_increasing) simp_all
    also have "\<dots> < (2::real) ^ 1024" by simp
    finally show ?thesis .
  qed
qed

lemma round_magnitude_overflow:
  assumes "2 ^ 1024 - 2 ^ 970 \<le> x"
  shows "2 ^ 1024 \<le> round_magnitude x"
proof -
  define e where "e = exponent x"
  have "(2::real) ^ 1023 \<le> 2 ^ 1024 - 2 ^ 970" by simp
  with assms have big: "2 powi 1023 \<le> x" by simp
  then have one: "1 \<le> x"
    using one_le_power [of "2::real" 1023] by simp
  have lo: "2 powi e \<le> x" and hi: "x < 2 powi (e + 1)"
    unfolding e_def using exponent_ge1_bounds [OF one] by simp_all
  from big hi have "(2::real) powi 1023 < 2 powi (e + 1)" by linarith
  then have e_low: "1023 \<le> e"
    using pow2_less_imp by fastforce
  show ?thesis
  proof (cases "e = 1023")
    case True
    then have u: "ulp x = 2 ^ 971"
      by (simp add: ulp_def e_def [symmetric])
    have "(2 ^ 1024 - 2 ^ 970) / (2::real) ^ 971 = 2 ^ 53 - 1 / 2"
      by (simp add: field_simps)
    moreover from assms have "(2 ^ 1024 - 2 ^ 970) / (2::real) ^ 971 \<le> x / 2 ^ 971"
      by (simp add: divide_right_mono)
    ultimately have "of_int (2 ^ 53) - 1 / 2 \<le> x / ulp x"
      by (simp add: u)
    then have "of_int (2 ^ 53) * ulp x \<le> round_magnitude x"
      by (rule round_magnitude_ge) simp
    then show ?thesis
      by (simp add: u)
  next
    case False
    with e_low have large: "1024 \<le> e" by simp
    from lo have "2 powi e / ulp x \<le> x / ulp x"
      using ulp_pos [of x] by (simp add: divide_right_mono)
    moreover have "2 powi e / ulp x = 2 ^ 52"
      using ulp_times_pow2_52 [of x] ulp_pos [of x] by (simp add: e_def field_simps)
    ultimately have "of_int (2 ^ 52) - 1 / 2 \<le> x / ulp x"
      unfolding of_int_pow2 by linarith
    then have "of_int (2 ^ 52) * ulp x \<le> round_magnitude x"
      by (rule round_magnitude_ge) simp
    moreover have "of_int (2 ^ 52) * ulp x = 2 powi e"
      using ulp_times_pow2_52 [of x] by (simp add: e_def)
    moreover have "(2::real) powi 1024 \<le> 2 powi e"
      using large by (intro power_int_increasing) simp_all
    ultimately show ?thesis by simp
  qed
qed

lemma round_f64_of_int:
  assumes "0 \<le> k" and "k \<le> 2 ^ 53"
  shows "round_f64 (of_int k) = Finite (of_int k)"
proof (cases "k = 0")
  case True
  then show ?thesis by (simp add: round_f64_def)
next
  case False
  with assms have k: "1 \<le> k" by simp
  then have exact: "round_magnitude (of_int k) = of_int k"
    using assms(2) by (rule round_magnitude_exact)
  have "(of_int k :: real) \<le> 2 ^ 53"
    using assms(2) by (rule of_int_le_pow2)
  also have "\<dots> < (2::real) ^ 1024" by simp
  finally have "\<not> (2::real) ^ 1024 \<le> of_int k" by simp
  with k exact show ?thesis
    by (simp add: round_f64_def)
qed

lemma float_of_int_exact:
  "0 \<le> k \<Longrightarrow> k \<le> 2 ^ 53 \<Longrightarrow> float_of_int k = Inr (Finite (of_int k))"
  by (simp add: float_of_int_def round_f64_of_int)

lemma float_of_int_finite:
  assumes "0 \<le> k" and "k < float_limit"
  shows "\<exists>x. float_of_int k = Inr (Finite x)"
proof (cases "k = 0")
  case True
  then show ?thesis by (simp add: float_of_int_def round_f64_def)
next
  case False
  with assms have k: "1 \<le> (of_int k :: real)" by simp
  from assms(2) have "(of_int k :: real) < of_int (2 ^ 1024 - 2 ^ 970)"
    by (simp only: of_int_less_iff float_limit_def)
  then have "(of_int k :: real) < 2 ^ 1024 - 2 ^ 970" by simp
  with k have "round_magnitude (of_int k) < 2 ^ 1024"
    by (rule round_magnitude_finite)
  with k show ?thesis
    by (simp add: float_of_int_def round_f64_def)
qed

lemma float_of_int_overflow:
  assumes "float_limit \<le> k"
  shows "float_of_int k = Inl OverflowError"
proof -
  from assms have "(of_int (2 ^ 1024 - 2 ^ 970) :: real) \<le> of_int k"
    by (simp only: of_int_le_iff float_limit_def)
  then have big: "2 ^ 1024 - 2 ^ 970 \<le> (of_int k :: real)" by simp
  then have "2 ^ 1024 \<le> round_magnitude (of_int k)"
    by (rule round_magnitude_overflow)
  moreover have "0 < (of_int k :: real)"
    using big by (simp add: algebra_simps) 
  ultimately show ?thesis
    by (simp add: float_of_int_def round_f64_def)
qed

lemma float_limit_pos: "0 < float_limit"
  by (simp add: float_limit_def)

lemma float_limit_above_exact: "2 ^ 53 < float_limit"
  by (simp add: float_limit_def)

subsection \<open>The loop in the store\<close>

lemma call_loop_done:
  "num_terms \<le> i \<Longrightarrow>
   call_loop room first_term common_difference num_terms i sequence store = (Inr sequence, store)"
  by (subst call_loop.simps) simp

lemma call_loop_step:
  assumes "i < num_terms" and "term_of first_term common_difference i = Inr t"
    and "length (store ! sequence) < room"
  shows "call_loop room first_term common_difference num_terms i sequence store =
         call_loop room first_term common_difference num_terms (i + 1) sequence
           (store[sequence := store ! sequence @ [t]])"
  using assms by (subst call_loop.simps) simp

lemma call_loop_overflow:
  assumes "i < num_terms" and "term_of first_term common_difference i = Inl e"
  shows "call_loop room first_term common_difference num_terms i sequence store = (Inl e, store)"
  using assms by (subst call_loop.simps) simp

lemma call_loop_memory:
  assumes "i < num_terms" and "term_of first_term common_difference i = Inr t"
    and "room \<le> length (store ! sequence)"
  shows "call_loop room first_term common_difference num_terms i sequence store =
         (Inl MemoryError, store)"
  using assms by (subst call_loop.simps) simp

lemma call_loop_success:
  assumes "sequence < length store"
    and "\<forall>k. i \<le> k \<and> k < num_terms \<longrightarrow> term_of first_term common_difference k = Inr (f k)"
    and "length (store ! sequence) + nat (num_terms - i) \<le> room"
  shows "call_loop room first_term common_difference num_terms i sequence store =
         (Inr sequence, store[sequence := store ! sequence @ map f [i..num_terms - 1]])"
  using assms
proof (induction room first_term common_difference num_terms i sequence store
    rule: call_loop.induct)
  case (1 room first_term common_difference num_terms i sequence store)
  show ?case
  proof (cases "i < num_terms")
    case True
    with "1.prems"(2) have t: "term_of first_term common_difference i = Inr (f i)"
      by simp
    from True "1.prems"(3) have fits: "length (store ! sequence) < room"
      by linarith
    let ?store = "store[sequence := store ! sequence @ [f i]]"
    have at: "?store ! sequence = store ! sequence @ [f i]"
      using "1.prems"(1) by simp
    have "call_loop room first_term common_difference num_terms (i + 1) sequence ?store =
          (Inr sequence, ?store[sequence := ?store ! sequence @ map f [i + 1..num_terms - 1]])"
    proof (rule "1.IH" [OF True t fits])
      show "sequence < length ?store"
        using "1.prems"(1) by simp
      show "\<forall>k. i + 1 \<le> k \<and> k < num_terms \<longrightarrow>
              term_of first_term common_difference k = Inr (f k)"
        using "1.prems"(2) by simp
      show "length (?store ! sequence) + nat (num_terms - (i + 1)) \<le> room"
        using "1.prems"(3) True by (simp add: at)
    qed
    moreover have "[i..num_terms - 1] = i # [i + 1..num_terms - 1]"
      using True by (simp add: upto_rec1)
    ultimately show ?thesis
      using call_loop_step [OF True t fits] by (simp add: at)
  next
    case False
    then show ?thesis
      by (simp add: call_loop_done)
  qed
qed

lemma call_loop_returns_only_if:
  assumes "sequence < length store"
    and "fst (call_loop room first_term common_difference num_terms i sequence store) = Inr q"
  shows "(\<forall>k. i \<le> k \<and> k < num_terms \<longrightarrow> (\<exists>t. term_of first_term common_difference k = Inr t))
         \<and> (i < num_terms \<longrightarrow> length (store ! sequence) + nat (num_terms - i) \<le> room)"
  using assms
proof (induction room first_term common_difference num_terms i sequence store
    rule: call_loop.induct)
  case (1 room first_term common_difference num_terms i sequence store)
  show ?case
  proof (cases "i < num_terms")
    case True
    from "1.prems"(2) True obtain t where t: "term_of first_term common_difference i = Inr t"
      by (cases "term_of first_term common_difference i") (simp_all add: call_loop_overflow)
    from "1.prems"(2) True t have fits: "length (store ! sequence) < room"
      by (cases "length (store ! sequence) < room") (simp_all add: call_loop_memory)
    let ?store = "store[sequence := store ! sequence @ [t]]"
    have at: "?store ! sequence = store ! sequence @ [t]"
      using "1.prems"(1) by simp
    have "(\<forall>k. i + 1 \<le> k \<and> k < num_terms \<longrightarrow>
             (\<exists>t. term_of first_term common_difference k = Inr t))
          \<and> (i + 1 < num_terms \<longrightarrow>
               length (?store ! sequence) + nat (num_terms - (i + 1)) \<le> room)"
    proof (rule "1.IH" [OF True t fits])
      show "sequence < length ?store"
        using "1.prems"(1) by simp
      show "fst (call_loop room first_term common_difference num_terms (i + 1) sequence ?store)
            = Inr q"
        using "1.prems"(2) call_loop_step [OF True t fits] by simp
    qed
    then have rest: "\<forall>k. i + 1 \<le> k \<and> k < num_terms \<longrightarrow>
             (\<exists>t. term_of first_term common_difference k = Inr t)"
      and room_rest: "i + 1 < num_terms \<longrightarrow>
               length (store ! sequence) + 1 + nat (num_terms - (i + 1)) \<le> room"
      by (simp_all add: at)
    have "\<forall>k. i \<le> k \<and> k < num_terms \<longrightarrow> (\<exists>t. term_of first_term common_difference k = Inr t)"
    proof (intro allI impI)
      fix k assume "i \<le> k \<and> k < num_terms"
      then show "\<exists>t. term_of first_term common_difference k = Inr t"
        using rest t by (cases "k = i") simp_all
    qed
    moreover have "length (store ! sequence) + nat (num_terms - i) \<le> room"
    proof (cases "i + 1 < num_terms")
      case more: True
      then have "nat (num_terms - i) = 1 + nat (num_terms - (i + 1))" by simp
      with room_rest more show ?thesis by simp
    next
      case False
      with True have "nat (num_terms - i) = 1" by simp
      with fits show ?thesis by simp
    qed
    ultimately show ?thesis by simp
  next
    case False
    then show ?thesis by auto
  qed
qed

lemma call_loop_same:
  assumes "sequence < length store" and "sequence' < length store'"
    and "store ! sequence = store' ! sequence'"
  shows "returned (call_loop room first_term common_difference num_terms i sequence store) =
         returned (call_loop room first_term common_difference num_terms i sequence' store')"
  using assms
proof (induction room first_term common_difference num_terms i sequence store
    arbitrary: store' rule: call_loop.induct)
  case (1 room first_term common_difference num_terms i sequence store)
  show ?case
  proof (cases "i < num_terms")
    case True
    show ?thesis
    proof (cases "term_of first_term common_difference i")
      case (Inl e)
      with True show ?thesis by (simp add: call_loop_overflow)
    next
      case (Inr t)
      show ?thesis
      proof (cases "length (store ! sequence) < room")
        case fits: True
        then have fits': "length (store' ! sequence') < room"
          using "1.prems"(3) by simp
        have "returned (call_loop room first_term common_difference num_terms (i + 1) sequence
                 (store[sequence := store ! sequence @ [t]])) =
              returned (call_loop room first_term common_difference num_terms (i + 1) sequence'
                 (store'[sequence' := store' ! sequence' @ [t]]))"
          using "1.prems" by (intro "1.IH" [OF True Inr fits]) simp_all
        then show ?thesis
          using call_loop_step [OF True Inr fits]
            call_loop_step [OF True Inr fits']
          by simp
      next
        case False
        then have "room \<le> length (store ! sequence)" "room \<le> length (store' ! sequence')"
          using "1.prems"(3) by simp_all
        then show ?thesis
          using True Inr by (simp add: call_loop_memory)
      qed
    qed
  next
    case False
    with "1.prems"(3) show ?thesis
      by (simp add: call_loop_done)
  qed
qed

lemma call_loop_frame:
  assumes "sequence < length store"
  shows "length (snd (call_loop room first_term common_difference num_terms i sequence store)) =
         length store
       \<and> (\<forall>q. q \<noteq> sequence \<longrightarrow>
            snd (call_loop room first_term common_difference num_terms i sequence store) ! q =
            store ! q)"
  using assms
proof (induction room first_term common_difference num_terms i sequence store
    rule: call_loop.induct)
  case (1 room first_term common_difference num_terms i sequence store)
  show ?case
  proof (cases "i < num_terms")
    case True
    show ?thesis
    proof (cases "term_of first_term common_difference i")
      case (Inl e)
      with True show ?thesis by (simp add: call_loop_overflow)
    next
      case (Inr t)
      show ?thesis
      proof (cases "length (store ! sequence) < room")
        case fits: True
        have "length (snd (call_loop room first_term common_difference num_terms (i + 1) sequence
                 (store[sequence := store ! sequence @ [t]]))) =
              length (store[sequence := store ! sequence @ [t]])
            \<and> (\<forall>q. q \<noteq> sequence \<longrightarrow>
                 snd (call_loop room first_term common_difference num_terms (i + 1) sequence
                   (store[sequence := store ! sequence @ [t]])) ! q =
                 store[sequence := store ! sequence @ [t]] ! q)"
          using "1.prems" by (intro "1.IH" [OF True Inr fits]) simp
        then show ?thesis
          using call_loop_step [OF True Inr fits] by simp
      next
        case False
        then show ?thesis
          using True Inr by (simp add: call_loop_memory)
      qed
    qed
  next
    case False
    then show ?thesis
      by (simp add: call_loop_done)
  qed
qed

lemma call_loop_prefix:
  assumes "sequence < length store" and "i \<le> j" and "j \<le> num_terms"
    and "\<forall>k. i \<le> k \<and> k < j \<longrightarrow> term_of first_term common_difference k = Inr (f k)"
    and "length (store ! sequence) + nat (j - i) \<le> room"
  shows "call_loop room first_term common_difference num_terms i sequence store =
         call_loop room first_term common_difference num_terms j sequence
           (store[sequence := store ! sequence @ map f [i..j - 1]])"
  using assms
proof (induction room first_term common_difference num_terms i sequence store
    rule: call_loop.induct)
  case (1 room first_term common_difference num_terms i sequence store)
  show ?case
  proof (cases "i < j")
    case True
    with "1.prems"(3) have run: "i < num_terms" by simp
    from True "1.prems"(4) have t: "term_of first_term common_difference i = Inr (f i)"
      by simp
    from True "1.prems"(5) have fits: "length (store ! sequence) < room"
      by linarith
    let ?store = "store[sequence := store ! sequence @ [f i]]"
    have at: "?store ! sequence = store ! sequence @ [f i]"
      using "1.prems"(1) by simp
    have "call_loop room first_term common_difference num_terms (i + 1) sequence ?store =
          call_loop room first_term common_difference num_terms j sequence
            (?store[sequence := ?store ! sequence @ map f [i + 1..j - 1]])"
    proof (rule "1.IH" [OF run t fits])
      show "sequence < length ?store"
        using "1.prems"(1) by simp
      show "i + 1 \<le> j" using True by simp
      show "j \<le> num_terms" by (rule "1.prems"(3))
      show "\<forall>k. i + 1 \<le> k \<and> k < j \<longrightarrow> term_of first_term common_difference k = Inr (f k)"
        using "1.prems"(4) by simp
      show "length (?store ! sequence) + nat (j - (i + 1)) \<le> room"
        using "1.prems"(5) True by (simp add: at)
    qed
    moreover have "[i..j - 1] = i # [i + 1..j - 1]"
      using True by (simp add: upto_rec1)
    ultimately show ?thesis
      using call_loop_step [OF run t fits] by (simp add: at)
  next
    case False
    with "1.prems"(2) have "j = i" by simp
    then show ?thesis
      using "1.prems"(1) by simp
  qed
qed

lemma generate_call_prefix:
  assumes "0 \<le> j" and "j \<le> num_terms"
    and "\<forall>k. 0 \<le> k \<and> k < j \<longrightarrow> term_of first_term common_difference k = Inr (f k)"
    and "nat j \<le> room"
  shows "generate_call room first_term common_difference num_terms store =
         call_loop room first_term common_difference num_terms j (length store)
           (store @ [map f [0..j - 1]])"
proof -
  have "call_loop room first_term common_difference num_terms 0 (length store) (store @ [[]]) =
        call_loop room first_term common_difference num_terms j (length store)
          ((store @ [[]])[length store := (store @ [[]]) ! length store @ map f [0..j - 1]])"
    using assms by (intro call_loop_prefix) simp_all
  then show ?thesis
    by (simp add: generate_call_def)
qed

lemma generate_call_returns:
  assumes "0 \<le> num_terms"
    and "\<forall>k. 0 \<le> k \<and> k < num_terms \<longrightarrow> term_of first_term common_difference k = Inr (f k)"
    and "nat num_terms \<le> room"
  shows "generate_call room first_term common_difference num_terms store =
         (Inr (length store), store @ [map f [0..num_terms - 1]])"
  using generate_call_prefix [OF assms(1) order_refl assms(2,3)]
  by (simp add: call_loop_done)

lemma generate_call_nonpositive:
  "num_terms \<le> 0 \<Longrightarrow>
   generate_call room first_term common_difference num_terms store =
   (Inr (length store), store @ [[]])"
  by (simp add: generate_call_def call_loop_done)

lemma generate_call_memory:
  assumes "int room < num_terms"
    and "\<forall>k. 0 \<le> k \<and> k \<le> int room \<longrightarrow> term_of first_term common_difference k = Inr (f k)"
  shows "returned (generate_call room first_term common_difference num_terms store) =
         Inl MemoryError"
proof -
  have "generate_call room first_term common_difference num_terms store =
        call_loop room first_term common_difference num_terms (int room) (length store)
          (store @ [map f [0..int room - 1]])"
    using assms by (intro generate_call_prefix) simp_all
  moreover have "term_of first_term common_difference (int room) = Inr (f (int room))"
    using assms(2) by simp
  ultimately show ?thesis
    using assms(1) by (simp add: call_loop_memory)
qed

lemma generate_call_overflow:
  assumes "0 \<le> j" and "j < num_terms" and "nat j \<le> room"
    and "\<forall>k. 0 \<le> k \<and> k < j \<longrightarrow> term_of first_term common_difference k = Inr (f k)"
    and "term_of first_term common_difference j = Inl e"
  shows "returned (generate_call room first_term common_difference num_terms store) = Inl e"
proof -
  have "generate_call room first_term common_difference num_terms store =
        call_loop room first_term common_difference num_terms j (length store)
          (store @ [map f [0..j - 1]])"
    using assms by (intro generate_call_prefix) simp_all
  then show ?thesis
    using assms(2,5) by (simp add: call_loop_overflow)
qed

lemma term_of_exact_counter:
  "0 \<le> k \<Longrightarrow> k \<le> 2 ^ 53 \<Longrightarrow>
   term_of first_term common_difference k =
   Inr (fadd first_term (fmul (Finite (of_int k)) common_difference))"
  by (simp add: term_of_def float_of_int_exact)

lemma term_of_converts:
  assumes "0 \<le> k" and "k < float_limit"
  shows "\<exists>t. term_of first_term common_difference k = Inr t"
proof -
  from float_of_int_finite [OF assms] obtain x where "float_of_int k = Inr (Finite x)" ..
  then show ?thesis by (simp add: term_of_def)
qed

lemma term_of_overflow:
  "float_limit \<le> k \<Longrightarrow> term_of first_term common_difference k = Inl OverflowError"
  by (simp add: term_of_def float_of_int_overflow)

subsection \<open>Roundings at given numbers, and the error of one term\<close>

lemma round_magnitude_in_binade:
  assumes "- 1022 \<le> e" and "2 powi e \<le> x" and "x < 2 powi (e + 1)"
  shows "round_magnitude x = of_int (round_half_even (x / 2 powi (e - 52))) * 2 powi (e - 52)"
  by (simp add: round_magnitude_def ulp_def exponent_eq [OF assms])

lemma round_f64_ties:
  "round_f64 (2 ^ 53 + 1) = Finite (2 ^ 53)"
  "round_f64 (2 ^ 53 + 2) = Finite (2 ^ 53 + 2)"
  "round_f64 (2 ^ 53 + 3) = Finite (2 ^ 53 + 4)"
proof -
  have "round_magnitude (2 ^ 53 + 1) = 2 ^ 53"
    using round_magnitude_in_binade [of 53 "2 ^ 53 + 1"] by (simp add: round_half_even_def)
  then show "round_f64 (2 ^ 53 + 1) = Finite (2 ^ 53)"
    by (simp add: round_f64_def)
  have "round_magnitude (2 ^ 53 + 2) = 2 ^ 53 + 2"
    using round_magnitude_in_binade [of 53 "2 ^ 53 + 2"] by (simp add: round_half_even_def)
  then show "round_f64 (2 ^ 53 + 2) = Finite (2 ^ 53 + 2)"
    by (simp add: round_f64_def)
  have "round_magnitude (2 ^ 53 + 3) = 2 ^ 53 + 4"
    using round_magnitude_in_binade [of 53 "2 ^ 53 + 3"] by (simp add: round_half_even_def)
  then show "round_f64 (2 ^ 53 + 3) = Finite (2 ^ 53 + 4)"
    by (simp add: round_f64_def)
qed

lemma round_f64_numeral:
  "numeral n \<le> (2::int) ^ 53 \<Longrightarrow> round_f64 (numeral n) = Finite (numeral n)"
  using round_f64_of_int [of "numeral n"] by simp

lemma round_f64_small: "round_f64 0 = Finite 0" "round_f64 1 = Finite 1"
  using round_f64_of_int [of 0] round_f64_of_int [of 1] by simp_all

lemma term_error:
  assumes "fadd (Finite a) (fmul (Finite c) (Finite b)) = Finite z"
  shows "\<bar>z - (a + c * b)\<bar> \<le> (\<bar>a\<bar> + 3 * \<bar>c * b\<bar>) / 2 ^ 53 + 3 / 2 ^ 1075"
proof (cases "round_f64 (c * b)")
  case (Finite p)
  with assms have sum: "round_f64 (a + p) = Finite z" by simp
  define eps :: real where "eps = 1 / 2 ^ 53"
  define eta :: real where "eta = 1 / 2 ^ 1075"
  have eps: "0 \<le> eps" "eps \<le> 1" and eta: "0 \<le> eta"
    by (simp_all add: eps_def eta_def)
  have e1: "\<bar>p - c * b\<bar> \<le> eps * \<bar>c * b\<bar> + eta"
    using round_f64_error [OF Finite] by (simp add: eps_def eta_def)
  have e2: "\<bar>z - (a + p)\<bar> \<le> eps * \<bar>a + p\<bar> + eta"
    using round_f64_error [OF sum] by (simp add: eps_def eta_def)
  have "\<bar>a + p\<bar> \<le> \<bar>a\<bar> + \<bar>c * b\<bar> + (eps * \<bar>c * b\<bar> + eta)"
    using e1 by linarith
  then have "eps * \<bar>a + p\<bar> \<le> eps * (\<bar>a\<bar> + \<bar>c * b\<bar> + (eps * \<bar>c * b\<bar> + eta))"
    using eps(1) by (rule mult_left_mono)
  also have "\<dots> = eps * \<bar>a\<bar> + eps * \<bar>c * b\<bar> + eps * (eps * \<bar>c * b\<bar>) + eps * eta"
    by (simp add: algebra_simps)
  finally have e3: "eps * \<bar>a + p\<bar> \<le>
      eps * \<bar>a\<bar> + eps * \<bar>c * b\<bar> + eps * (eps * \<bar>c * b\<bar>) + eps * eta" .
  have "eps * (eps * \<bar>c * b\<bar>) \<le> 1 * (eps * \<bar>c * b\<bar>)"
    using eps by (intro mult_right_mono) simp_all
  then have e4: "eps * (eps * \<bar>c * b\<bar>) \<le> eps * \<bar>c * b\<bar>" by simp
  have "eps * eta \<le> 1 * eta"
    using eps eta by (intro mult_right_mono) simp_all
  then have e5: "eps * eta \<le> eta" by simp
  have "\<bar>z - (a + c * b)\<bar> \<le> \<bar>z - (a + p)\<bar> + \<bar>p - c * b\<bar>"
    by linarith
  with e1 e2 e3 e4 e5 have "\<bar>z - (a + c * b)\<bar> \<le> eps * \<bar>a\<bar> + 3 * (eps * \<bar>c * b\<bar>) + 3 * eta"
    by linarith
  also have "\<dots> = (\<bar>a\<bar> + 3 * \<bar>c * b\<bar>) / 2 ^ 53 + 3 / 2 ^ 1075"
    by (simp add: eps_def eta_def add_divide_distrib)
  finally show ?thesis .
next
  case PInf
  with assms show ?thesis by simp
next
  case NInf
  with assms show ?thesis by simp
next
  case NaN
  with assms show ?thesis by simp
qed

subsection \<open>The whole call\<close>

lemma generate_call_small:
  assumes "0 \<le> num_terms" and "num_terms \<le> 2 ^ 53" and "nat num_terms \<le> room"
  shows "generate_call room first_term common_difference num_terms store =
         (Inr (length store),
          store @ [map (\<lambda>k. fadd first_term (fmul (Finite (of_int k)) common_difference))
                     [0..num_terms - 1]])"
  using assms by (intro generate_call_returns) (simp_all add: term_of_exact_counter)

lemma term_of_projr:
  "0 \<le> k \<Longrightarrow> k < float_limit \<Longrightarrow>
   term_of first_term common_difference k = Inr (projr (term_of first_term common_difference k))"
  using term_of_converts [of k first_term common_difference] by auto

lemma generate_call_below_threshold:
  assumes "0 \<le> num_terms" and "num_terms \<le> float_limit" and "nat num_terms \<le> room"
  shows "generate_call room first_term common_difference num_terms store =
         (Inr (length store),
          store @ [map (\<lambda>k. projr (term_of first_term common_difference k)) [0..num_terms - 1]])"
proof (rule generate_call_returns)
  show "0 \<le> num_terms" by (rule assms(1))
  show "\<forall>k. 0 \<le> k \<and> k < num_terms \<longrightarrow>
          term_of first_term common_difference k =
          Inr (projr (term_of first_term common_difference k))"
    using assms(2) term_of_projr by fastforce
  show "nat num_terms \<le> room" by (rule assms(3))
qed

lemma generate_call_out_of_memory:
  assumes "int room < num_terms" and "int room < float_limit"
  shows "returned (generate_call room first_term common_difference num_terms store) =
         Inl MemoryError"
proof (rule generate_call_memory
    [where f = "\<lambda>k. projr (term_of first_term common_difference k)"])
  show "int room < num_terms" by (rule assms(1))
  show "\<forall>k. 0 \<le> k \<and> k \<le> int room \<longrightarrow>
          term_of first_term common_difference k =
          Inr (projr (term_of first_term common_difference k))"
    using assms(2) term_of_projr by fastforce
qed

lemma generate_call_counter_overflow:
  assumes "float_limit < num_terms" and "float_limit \<le> int room"
  shows "returned (generate_call room first_term common_difference num_terms store) =
         Inl OverflowError"
proof (rule generate_call_overflow
    [where j = "float_limit"
       and f = "\<lambda>k. projr (term_of first_term common_difference k)"])
  show "0 \<le> float_limit" using float_limit_pos by simp
  show "float_limit < num_terms" by (rule assms(1))
  show "nat float_limit \<le> room" using assms(2) by linarith
  show "\<forall>k. 0 \<le> k \<and> k < float_limit \<longrightarrow>
          term_of first_term common_difference k =
          Inr (projr (term_of first_term common_difference k))"
    using term_of_projr by blast
  show "term_of first_term common_difference (float_limit) = Inl OverflowError"
    by (rule term_of_overflow) simp
qed

lemma generate_call_frame:
  "length (snd (generate_call room first_term common_difference num_terms store)) =
   Suc (length store)"
  "q < length store \<Longrightarrow>
   snd (generate_call room first_term common_difference num_terms store) ! q = store ! q"
proof -
  have "length store < length (store @ [[]])" by simp
  from call_loop_frame [OF this, of room first_term common_difference num_terms 0]
  show "length (snd (generate_call room first_term common_difference num_terms store)) =
        Suc (length store)"
    and "q < length store \<Longrightarrow>
         snd (generate_call room first_term common_difference num_terms store) ! q = store ! q"
    by (simp_all add: generate_call_def nth_append)
qed

lemma generate_call_same:
  "returned (generate_call room first_term common_difference num_terms store) =
   returned (generate_call room first_term common_difference num_terms store')"
  unfolding generate_call_def by (rule call_loop_same) simp_all

lemma generate_call_address:
  assumes "fst (generate_call room first_term common_difference num_terms store) = Inr p"
  shows "p = length store"
proof -
  have "\<And>i s. fst (call_loop room first_term common_difference num_terms i (length store) s) = Inr p
          \<Longrightarrow> p = length store"
  proof -
    fix i s
    show "fst (call_loop room first_term common_difference num_terms i (length store) s) = Inr p
          \<Longrightarrow> p = length store"
    proof (induction room first_term common_difference num_terms i "length store" s
        rule: call_loop.induct)
      case (1 room first_term common_difference num_terms i s)
      then show ?case
        by (subst (asm) call_loop.simps) (auto split: if_splits sum.splits)
    qed
  qed
  with assms show ?thesis by (simp add: generate_call_def)
qed

lemma round_f64_of_int_signed:
  assumes "\<bar>k\<bar> \<le> 2 ^ 53"
  shows "round_f64 (of_int k) = Finite (of_int k)"
proof (cases "0 \<le> k")
  case True
  with assms show ?thesis by (simp add: round_f64_of_int)
next
  case False
  then have k: "1 \<le> - k" "- k \<le> 2 ^ 53"
    using assms by simp_all
  then have exact: "round_magnitude (of_int (- k)) = of_int (- k)"
    by (rule round_magnitude_exact)
  have "(of_int (- k) :: real) \<le> 2 ^ 53"
    using k(2) by (rule of_int_le_pow2)
  also have "\<dots> < (2::real) ^ 1024" by simp
  finally have "\<not> (2::real) ^ 1024 \<le> of_int (- k)" by simp
  with False exact show ?thesis
    by (simp add: round_f64_def)
qed

lemma generate_call_integers:
  assumes "0 \<le> num_terms" and "num_terms \<le> 1000" and "nat num_terms \<le> room"
    and "\<bar>x\<bar> + 1000 * \<bar>y\<bar> \<le> 2 ^ 53"
  shows "returned (generate_call room (Finite (of_int x)) (Finite (of_int y)) num_terms store) =
         Inr (map Finite (generate_arithmetic_sequence (of_int x) (of_int y) num_terms))"
proof -
  have at_k: "fadd (Finite (of_int x)) (fmul (Finite (of_int k)) (Finite (of_int y))) =
              Finite (of_int x + of_int k * of_int y)"
    if "0 \<le> k" and "k < num_terms" for k
  proof -
    from that assms(2) have k: "\<bar>k\<bar> \<le> 1000" by simp
    then have "\<bar>k * y\<bar> \<le> 1000 * \<bar>y\<bar>"
      by (simp add: abs_mult mult_right_mono)
    with assms(4) have "\<bar>k * y\<bar> \<le> 2 ^ 53" and "\<bar>x + k * y\<bar> \<le> 2 ^ 53"
      by linarith+
    then have "round_f64 (of_int (k * y)) = Finite (of_int (k * y))"
      and "round_f64 (of_int (x + k * y)) = Finite (of_int (x + k * y))"
      by (simp_all only: round_f64_of_int_signed)
    then show ?thesis by simp
  qed
  have "num_terms \<le> 2 ^ 53" using assms(2) by simp
  with assms(1,3) have "returned (generate_call room (Finite (of_int x)) (Finite (of_int y))
            num_terms store) =
        Inr (map (\<lambda>k. fadd (Finite (of_int x)) (fmul (Finite (of_int k)) (Finite (of_int y))))
               [0..num_terms - 1])"
    by (simp add: generate_call_small)
  also have "map (\<lambda>k. fadd (Finite (of_int x)) (fmul (Finite (of_int k)) (Finite (of_int y))))
               [0..num_terms - 1] =
             map (\<lambda>k. Finite (of_int x + of_int k * of_int y)) [0..num_terms - 1]"
  proof (rule map_cong)
    show "[0..num_terms - 1] = [0..num_terms - 1]" by simp
    fix k assume "k \<in> set [0..num_terms - 1]"
    then have "0 \<le> k" and "k < num_terms" by simp_all
    then show "fadd (Finite (of_int x)) (fmul (Finite (of_int k)) (Finite (of_int y))) =
               Finite (of_int x + of_int k * of_int y)"
      by (rule at_k)
  qed
  also have "\<dots> = map Finite (generate_arithmetic_sequence (of_int x) (of_int y) num_terms)"
    by (simp add: generate_closed comp_def)
  finally show ?thesis .
qed

lemma examples_in_binary64:
  "returned (generate_call 10 (Finite 1) (Finite 1) 10 store) =
     Inr (map Finite (generate_arithmetic_sequence 1 1 10))"
  "returned (generate_call 5 (Finite 5) (Finite (- 2)) 5 store) =
     Inr (map Finite (generate_arithmetic_sequence 5 (- 2) 5))"
  using generate_call_integers [of 10 10 1 1 store] generate_call_integers [of 5 5 5 "- 2" store]
  by simp_all

lemmas round_f64_ties_eval = round_f64_ties [simplified]

lemma generate_call_near_reals:
  assumes "0 \<le> num_terms" and "num_terms \<le> 1000" and "nat num_terms \<le> room"
  shows "\<exists>sequence.
           returned (generate_call room (Finite a) (Finite b) num_terms store) = Inr sequence
           \<and> length sequence = length (generate_arithmetic_sequence a b num_terms)
           \<and> (\<forall>k < length sequence. \<forall>z. sequence ! k = Finite z \<longrightarrow>
                  \<bar>z - generate_arithmetic_sequence a b num_terms ! k\<bar>
                  \<le> (\<bar>a\<bar> + 3 * \<bar>of_nat k * b\<bar>) / 2 ^ 53 + 3 / 2 ^ 1075)"
proof -
  let ?f = "\<lambda>k. fadd (Finite a) (fmul (Finite (of_int k)) (Finite b))"
  have "num_terms \<le> 2 ^ 53" using assms(2) by simp
  with assms(1,3) have call: "returned (generate_call room (Finite a) (Finite b) num_terms store) =
        Inr (map ?f [0..num_terms - 1])"
    by (simp add: generate_call_small)
  have len: "length (map ?f [0..num_terms - 1]) = length (generate_arithmetic_sequence a b num_terms)"
    by (simp add: length_generate)
  have near: "\<bar>z - generate_arithmetic_sequence a b num_terms ! k\<bar>
              \<le> (\<bar>a\<bar> + 3 * \<bar>of_nat k * b\<bar>) / 2 ^ 53 + 3 / 2 ^ 1075"
    if "k < length (map ?f [0..num_terms - 1])" and "map ?f [0..num_terms - 1] ! k = Finite z"
    for k z
  proof -
    from that(1) have k: "k < nat num_terms" by simp
    then have "0 + int k \<le> num_terms - 1" by simp
    then have "[0..num_terms - 1] ! k = 0 + int k" by (rule nth_upto)
    with that have "fadd (Finite a) (fmul (Finite (of_int (int k))) (Finite b)) = Finite z"
      by simp
    then have "\<bar>z - (a + of_int (int k) * b)\<bar>
               \<le> (\<bar>a\<bar> + 3 * \<bar>of_int (int k) * b\<bar>) / 2 ^ 53 + 3 / 2 ^ 1075"
      by (rule term_error)
    with nth_generate [OF k, of a b] show ?thesis by simp
  qed
  from call len near show ?thesis by blast
qed

lemma generate_call_rooms:
  assumes "nat num_terms \<le> room" and "nat num_terms \<le> room'"
  shows "returned (generate_call room first_term common_difference num_terms store) =
         returned (generate_call room' first_term common_difference num_terms store')"
proof (cases "num_terms \<le> 0")
  case True
  then show ?thesis by (simp add: generate_call_nonpositive)
next
  case False
  then have pos: "0 \<le> num_terms" by simp
  show ?thesis
  proof (cases "num_terms \<le> float_limit")
    case True
    with pos assms show ?thesis
      by (simp add: generate_call_below_threshold)
  next
    case False
    then have over: "float_limit < num_terms" by simp
    with assms pos have "float_limit \<le> int room" and "float_limit \<le> int room'"
      by linarith+
    with over show ?thesis
      by (simp add: generate_call_counter_overflow)
  qed
qed

section \<open>The claims\<close>

text \<open>
  C1, as stated, fails: the term is not always the real number
  \<open>first_term + i * common_difference\<close>. With first term \<open>2 ^ 53\<close>, difference 1 and 4
  terms, a valid request, line 17 rounds \<open>2 ^ 53 + 1\<close> to \<open>2 ^ 53\<close>, so the element at
  index 1 is \<open>2 ^ 53\<close> (and the one at index 3 is \<open>2 ^ 53 + 4\<close>).
\<close>

theorem exact_formula_fails:
  "returned (generate_call 4 (Finite (2 ^ 53)) (Finite 1) 4 []) =
     Inr [Finite (2 ^ 53), Finite (2 ^ 53), Finite (2 ^ 53 + 2), Finite (2 ^ 53 + 4)]
   \<and> getitem [Finite (2 ^ 53), Finite (2 ^ 53), Finite (2 ^ 53 + 2), Finite (2 ^ 53 + 4)] 1
     \<noteq> Inr (Finite (2 ^ 53 + 1 * 1))"
proof -
  have "generate_call 4 (Finite (2 ^ 53)) (Finite 1) 4 [] =
        (Inr (length ([] :: store)),
         [] @ [map (\<lambda>k. fadd (Finite (2 ^ 53)) (fmul (Finite (of_int k)) (Finite 1))) [0..4 - 1]])"
    by (rule generate_call_small) simp_all
  moreover have "[0..4 - 1] = [0, 1, 2, 3 :: int]"
    by (simp add: upto_rec1)
  ultimately show ?thesis
    by (simp add: round_f64_small round_f64_numeral round_f64_ties_eval getitem_def)
qed

text \<open>
  C1, amended. For a valid request (\<open>1 \<le> num_terms \<le> 1000\<close>, finite \<^verbatim>\<open>first_term\<close> and
  \<^verbatim>\<open>common_difference\<close>, memory for the list) the call returns, and for every \<open>i\<close> with
  \<open>0 \<le> i < num_terms\<close> the subscript \<^verbatim>\<open>sequence[i]\<close> succeeds and yields the binary64
  value of \<^verbatim>\<open>first_term + (i * common_difference)\<close>: the product rounded to nearest, then
  the sum rounded to nearest, either overflowing to an infinity. When that value is
  finite, it is within
  \<open>(\<bar>first_term\<bar> + 3 * \<bar>i * common_difference\<bar>) / 2 ^ 53 + 3 / 2 ^ 1075\<close>
  of the real number \<open>first_term + i * common_difference\<close>.
\<close>

theorem term_is_rounded_formula:
  assumes "1 \<le> num_terms" and "num_terms \<le> 1000" and "0 \<le> i" and "i < num_terms"
    and "nat num_terms \<le> room"
  shows "returned (generate_call room (Finite a) (Finite b) num_terms store) =
           Inr (map (\<lambda>k. fadd (Finite a) (fmul (Finite (of_int k)) (Finite b)))
                  [0..num_terms - 1])
         \<and> getitem (map (\<lambda>k. fadd (Finite a) (fmul (Finite (of_int k)) (Finite b)))
                      [0..num_terms - 1]) i =
           Inr (fadd (Finite a) (fmul (Finite (of_int i)) (Finite b)))
         \<and> (\<forall>z. fadd (Finite a) (fmul (Finite (of_int i)) (Finite b)) = Finite z \<longrightarrow>
                \<bar>z - (a + of_int i * b)\<bar>
                \<le> (\<bar>a\<bar> + 3 * \<bar>of_int i * b\<bar>) / 2 ^ 53 + 3 / 2 ^ 1075)"
proof (intro conjI allI impI)
  have "num_terms \<le> 2 ^ 53" using assms(2) by simp
  with assms(1,5) show "returned (generate_call room (Finite a) (Finite b) num_terms store) =
           Inr (map (\<lambda>k. fadd (Finite a) (fmul (Finite (of_int k)) (Finite b)))
                  [0..num_terms - 1])"
    by (simp add: generate_call_small)
next
  from assms(3,4) have "0 + int (nat i) \<le> num_terms - 1" by simp
  then have "[0..num_terms - 1] ! nat i = 0 + int (nat i)"
    by (rule nth_upto)
  with assms(3,4) show "getitem (map (\<lambda>k. fadd (Finite a) (fmul (Finite (of_int k)) (Finite b)))
                      [0..num_terms - 1]) i =
           Inr (fadd (Finite a) (fmul (Finite (of_int i)) (Finite b)))"
    by (simp add: getitem_def)
next
  fix z
  assume "fadd (Finite a) (fmul (Finite (of_int i)) (Finite b)) = Finite z"
  then show "\<bar>z - (a + of_int i * b)\<bar>
             \<le> (\<bar>a\<bar> + 3 * \<bar>of_int i * b\<bar>) / 2 ^ 53 + 3 / 2 ^ 1075"
    by (rule term_error)
qed

theorem term_is_rounded_formula_witness:
  "(1::int) \<le> 4 \<and> (4::int) \<le> 1000 \<and> (0::int) \<le> 2 \<and> (2::int) < 4 \<and> nat 4 \<le> (4::nat)
   \<and> returned (generate_call 4 (Finite 2) (Finite 3) 4 []) =
       Inr [Finite 2, Finite 5, Finite 8, Finite 11]
   \<and> getitem [Finite 2, Finite 5, Finite 8, Finite 11] 2 = Inr (Finite 8)
   \<and> \<bar>8 - (2 + 2 * 3)\<bar> \<le> ((\<bar>2\<bar> + 3 * \<bar>2 * 3\<bar>) / 2 ^ 53 + 3 / 2 ^ 1075 :: real)"
proof -
  have "[0..4 - 1] = [0, 1, 2, 3 :: int]"
    by (simp add: upto_rec1)
  then show ?thesis
    using term_is_rounded_formula [of 4 2 4 2 3 "[]"]
    by (simp add: round_f64_small round_f64_numeral)
qed

text \<open>
  C2. For a valid request the returned list has exactly \<open>num_terms\<close> elements.
\<close>

theorem generate_length:
  assumes "1 \<le> num_terms" and "num_terms \<le> 1000"
  shows "int (length (generate_arithmetic_sequence first_term common_difference num_terms)) = num_terms"
  using assms by (simp add: length_generate)

theorem generate_length_witness:
  "(1::int) \<le> 7 \<and> (7::int) \<le> 1000
   \<and> int (length (generate_arithmetic_sequence 0.5 (- 2) 7)) = 7"
  using generate_length [of 7 "0.5" "- 2"] by simp

text \<open>
  C3. main with \<open>num_terms \<le> 0\<close>, and main with \<open>num_terms > 1000\<close>, shows its
  \<^verbatim>\<open>st.error\<close> message and returns with \<^verbatim>\<open>sequence\<close> never assigned: the generator is
  not called and no result is shown. With \<open>1 \<le> num_terms \<le> 1000\<close> main calls the
  generator on its three inputs.
\<close>

theorem main_validation:
  "(num_terms \<le> 0 \<longrightarrow>
      main first_term common_difference num_terms =
      \<lparr>generated = None,
       shown = [Error (lit ''Number of terms must be a positive integer.'')]\<rparr>)
   \<and> (1000 < num_terms \<longrightarrow>
      main first_term common_difference num_terms =
      \<lparr>generated = None,
       shown = [Error (lit ''Number of terms cannot exceed 1000 for performance reasons.'')]\<rparr>)
   \<and> (1 \<le> num_terms \<and> num_terms \<le> 1000 \<longrightarrow>
      generated (main first_term common_difference num_terms) =
      Some (generate_arithmetic_sequence first_term common_difference num_terms))"
  by (simp add: main_rejects_nonpositive main_rejects_large main_valid)

theorem main_validation_witness:
  "main 1 1 0 =
     \<lparr>generated = None, shown = [Error (lit ''Number of terms must be a positive integer.'')]\<rparr>
   \<and> main 1 1 1001 =
     \<lparr>generated = None,
      shown = [Error (lit ''Number of terms cannot exceed 1000 for performance reasons.'')]\<rparr>
   \<and> generated (main 1 1 3) = Some [1, 2, 3]"
proof -
  have "generate_arithmetic_sequence 1 1 3 = [1, 2, 3]"
    by (simp add: generate_arithmetic_sequence_def gen_loop.simps)
  then show ?thesis
    using main_validation [of 0 1 1] main_validation [of 1001 1 1] main_validation [of 3 1 1]
    by simp
qed

text \<open>
  C4, as stated, fails. With 45 terms main takes the branch \<^verbatim>\<open>len(sequence) <= 50\<close> of
  line 98: the sequence is shown as one \<^verbatim>\<open>st.code\<close> line and the page holds no chunk at
  all.
\<close>

theorem chunks_45_not_displayed:
  "display_sequence (generate_arithmetic_sequence 1 1 45) =
     [Code (comma_joined (generate_arithmetic_sequence 1 1 45))]
   \<and> chunks_shown (shown (main 1 1 45)) = []"
  by (simp add: main_valid display_short length_generate results_head_def download_def)

text \<open>
  C4, amended. The chunk loop of lines 111 to 115, run on a sequence of 45 terms, gives
  three lines, for slices of 20, 20 and 5 terms, that start with \<^verbatim>\<open>Terms 1-20: \<close>,
  \<^verbatim>\<open>Terms 21-40: \<close> and \<^verbatim>\<open>Terms 41-45: \<close>. main runs that loop only for more than 50
  terms: what it displays for 45 terms is the single comma-joined line, and no chunk.
\<close>

theorem chunks_of_45:
  "chunk_loop (generate_arithmetic_sequence first_term common_difference 45) 0 =
     [Text (lit ''Terms 1-20: ''
            @ comma_joined (take 20 (generate_arithmetic_sequence first_term common_difference 45))),
      Text (lit ''Terms 21-40: ''
            @ comma_joined
                (take 20 (drop 20 (generate_arithmetic_sequence first_term common_difference 45)))),
      Text (lit ''Terms 41-45: ''
            @ comma_joined
                (take 20 (drop 40 (generate_arithmetic_sequence first_term common_difference 45))))]
   \<and> map length
       [take 20 (generate_arithmetic_sequence first_term common_difference 45),
        take 20 (drop 20 (generate_arithmetic_sequence first_term common_difference 45)),
        take 20 (drop 40 (generate_arithmetic_sequence first_term common_difference 45))]
     = [20, 20, 5]
   \<and> display_sequence (generate_arithmetic_sequence first_term common_difference 45) =
     [Code (comma_joined (generate_arithmetic_sequence first_term common_difference 45))]
   \<and> chunks_shown (shown (main first_term common_difference 45)) = []"
proof -
  let ?s = "generate_arithmetic_sequence first_term common_difference 45"
  have three: "[0..<(length ?s - 0 + 19) div 20] = [0, 1, 2]"
    by (simp add: length_45 upt_rec)
  have loop: "chunk_loop ?s 0 = [chunk_line ?s 0, chunk_line ?s 20, chunk_line ?s 40]"
    by (simp only: chunk_loop_closed three) simp
  have shown_45: "chunks_shown (shown (main first_term common_difference 45)) = []"
    by (simp add: main_valid display_short length_45 results_head_def download_def)
  have short: "display_sequence ?s = [Code (comma_joined ?s)]"
    by (simp add: display_short length_45)
  show ?thesis
    unfolding loop using shown_45 short
    by (simp add: chunk_line_def chunk_size_def length_45 str_int_labels)
qed

text \<open>
  C5. A sequence of at most 50 terms is shown as one line, its terms joined by a comma
  and a space. A longer one is shown as a line with its first 10 terms, a line with its
  last 10 terms (the test \<^verbatim>\<open>len(sequence) > 20\<close> of line 105 always holds there) and an
  expander with one line per chunk: chunk \<open>k\<close> holds the terms at positions \<open>20 * k\<close> up
  to \<open>20 * k + 19\<close>, cut at the end of the sequence, and is labelled with the 1-based
  range \<open>20 * k + 1\<close> to \<open>min (20 * k + 20) (length sequence)\<close>; the chunks put together
  are the sequence. For a valid request main shows this presentation of the generated
  sequence between the heading of the results and the sequence properties.
\<close>

theorem presentation_by_length:
  "(length sequence \<le> 50 \<longrightarrow>
      display_sequence sequence =
      [Code (join (lit '', '') (map (\<lambda>term. [Fmt_g term]) sequence))])
   \<and> (50 < length sequence \<longrightarrow>
      display_sequence sequence =
      [Write (lit ''**First 10 terms:** ''
              @ join (lit '', '') (map (\<lambda>term. [Fmt_g term]) (take 10 sequence))),
       Write (lit ''**Last 10 terms:** ''
              @ join (lit '', '')
                  (map (\<lambda>term. [Fmt_g term]) (drop (length sequence - 10) sequence))),
       Expander (lit ''Show complete sequence'')
         (map (\<lambda>k. Text (lit ''Terms '' @ lit (str_int (int (20 * k) + 1)) @ lit ''-''
                          @ lit (str_int (min (int (20 * k) + 20) (int (length sequence))))
                          @ lit '': ''
                          @ join (lit '', '')
                              (map (\<lambda>term. [Fmt_g term]) (take 20 (drop (20 * k) sequence)))))
            [0..<(length sequence + 19) div 20])]
      \<and> concat (map (\<lambda>k. take 20 (drop (20 * k) sequence))
                  [0..<(length sequence + 19) div 20]) = sequence)
   \<and> (1 \<le> num_terms \<and> num_terms \<le> 1000 \<longrightarrow>
      shown (main first_term common_difference num_terms) =
      results_head first_term common_difference num_terms
      @ display_sequence (generate_arithmetic_sequence first_term common_difference num_terms)
      @ [Subheader (lit ''Sequence Properties''),
         Metric (lit ''Sum of all terms'')
           [Fmt_g (sum_py (generate_arithmetic_sequence first_term common_difference num_terms))],
         Metric (lit ''Last term'')
           [Fmt_g (first_term + of_int (num_terms - 1) * common_difference)]]
      @ download first_term common_difference num_terms
          (generate_arithmetic_sequence first_term common_difference num_terms))"
proof (intro conjI impI)
  assume "length sequence \<le> 50"
  then show "display_sequence sequence =
             [Code (join (lit '', '') (map (\<lambda>term. [Fmt_g term]) sequence))]"
    by (simp add: display_short comma_joined_def)
next
  assume "50 < length sequence"
  then show "display_sequence sequence =
      [Write (lit ''**First 10 terms:** ''
              @ join (lit '', '') (map (\<lambda>term. [Fmt_g term]) (take 10 sequence))),
       Write (lit ''**Last 10 terms:** ''
              @ join (lit '', '')
                  (map (\<lambda>term. [Fmt_g term]) (drop (length sequence - 10) sequence))),
       Expander (lit ''Show complete sequence'')
         (map (\<lambda>k. Text (lit ''Terms '' @ lit (str_int (int (20 * k) + 1)) @ lit ''-''
                          @ lit (str_int (min (int (20 * k) + 20) (int (length sequence))))
                          @ lit '': ''
                          @ join (lit '', '')
                              (map (\<lambda>term. [Fmt_g term]) (take 20 (drop (20 * k) sequence)))))
            [0..<(length sequence + 19) div 20])]"
    by (simp add: display_long chunk_line_def chunk_size_def comma_joined_def)
next
  show "concat (map (\<lambda>k. take 20 (drop (20 * k) sequence))
                  [0..<(length sequence + 19) div 20]) = sequence"
    by (rule chunks_cover)
next
  assume "1 \<le> num_terms \<and> num_terms \<le> 1000"
  then show "shown (main first_term common_difference num_terms) =
      results_head first_term common_difference num_terms
      @ display_sequence (generate_arithmetic_sequence first_term common_difference num_terms)
      @ [Subheader (lit ''Sequence Properties''),
         Metric (lit ''Sum of all terms'')
           [Fmt_g (sum_py (generate_arithmetic_sequence first_term common_difference num_terms))],
         Metric (lit ''Last term'')
           [Fmt_g (first_term + of_int (num_terms - 1) * common_difference)]]
      @ download first_term common_difference num_terms
          (generate_arithmetic_sequence first_term common_difference num_terms)"
    by (simp add: main_valid)
qed

theorem presentation_by_length_witness:
  "display_sequence [1, 2, 3] =
     [Code [Fmt_g 1, Ch CHR '','', Ch CHR '' '', Fmt_g 2, Ch CHR '','', Ch CHR '' '', Fmt_g 3]]
   \<and> shown (main 1 1 3) =
     results_head 1 1 3
     @ [Code [Fmt_g 1, Ch CHR '','', Ch CHR '' '', Fmt_g 2, Ch CHR '','', Ch CHR '' '', Fmt_g 3],
        Subheader (lit ''Sequence Properties''),
        Metric (lit ''Sum of all terms'') [Fmt_g 6],
        Metric (lit ''Last term'') [Fmt_g 3]]
   \<and> display_sequence (replicate 51 7) =
     [Write (lit ''**First 10 terms:** '' @ comma_joined (replicate 10 7)),
      Write (lit ''**Last 10 terms:** '' @ comma_joined (replicate 10 7)),
      Expander (lit ''Show complete sequence'')
        [Text (lit ''Terms 1-20: '' @ comma_joined (replicate 20 7)),
         Text (lit ''Terms 21-40: '' @ comma_joined (replicate 20 7)),
         Text (lit ''Terms 41-51: '' @ comma_joined (replicate 11 7))]]"
proof -
  have small: "generate_arithmetic_sequence 1 1 3 = [1, 2, 3]"
    by (simp add: generate_arithmetic_sequence_def gen_loop.simps)
  have label: "str_int 51 = ''51''"
    by (simp add: str_int_def str_nat.simps)
  show ?thesis
    using presentation_by_length [of "[1, 2, 3]" 3 1 1]
      presentation_by_length [of "replicate 51 7"]
    unfolding small
    by (simp add: comma_joined_def sum_py_def download_def upt_rec [of _ "numeral n" for n]
          str_int_labels label)
qed

text \<open>
  C6. The two worked examples: first term 1, difference 1, 10 terms gives the list 1 to
  10, whose sum is 55 and whose last term is 10; first term 5, difference -2, 5 terms
  gives 5, 3, 1, -1, -3, whose sum is 5 and whose last term is -3. Sum and last term are
  the values main computes for its two metrics, and the page main builds for each example
  shows the list, the sum and the last term.
\<close>

theorem generate_examples:
  "generate_arithmetic_sequence 1 1 10 = [1, 2, 3, 4, 5, 6, 7, 8, 9, 10]
   \<and> sum_py (generate_arithmetic_sequence 1 1 10) = 55
   \<and> last_term (generate_arithmetic_sequence 1 1 10) = Inr 10
   \<and> shown (main 1 1 10) =
       results_head 1 1 10
       @ [Code (comma_joined [1, 2, 3, 4, 5, 6, 7, 8, 9, 10]),
          Subheader (lit ''Sequence Properties''),
          Metric (lit ''Sum of all terms'') [Fmt_g 55],
          Metric (lit ''Last term'') [Fmt_g 10]]
   \<and> generate_arithmetic_sequence 5 (- 2) 5 = [5, 3, 1, - 1, - 3]
   \<and> sum_py (generate_arithmetic_sequence 5 (- 2) 5) = 5
   \<and> last_term (generate_arithmetic_sequence 5 (- 2) 5) = Inr (- 3)
   \<and> shown (main 5 (- 2) 5) =
       results_head 5 (- 2) 5
       @ [Code (comma_joined [5, 3, 1, - 1, - 3]),
          Subheader (lit ''Sequence Properties''),
          Metric (lit ''Sum of all terms'') [Fmt_g 5],
          Metric (lit ''Last term'') [Fmt_g (- 3)]]"
proof -
  have a: "generate_arithmetic_sequence 1 1 10 = [1, 2, 3, 4, 5, 6, 7, 8, 9, 10]"
    by (simp add: generate_arithmetic_sequence_def gen_loop.simps)
  have b: "generate_arithmetic_sequence 5 (- 2) 5 = [5, 3, 1, - 1, - 3]"
    by (simp add: generate_arithmetic_sequence_def gen_loop.simps)
  have sums: "sum_py [1, 2, 3, 4, 5, 6, 7, 8, 9, 10] = 55" "sum_py [5, 3, 1, - 1, - 3] = 5"
    by (simp_all add: sum_py_def)
  have page_a: "shown (main 1 1 10) =
       results_head 1 1 10
       @ [Code (comma_joined [1, 2, 3, 4, 5, 6, 7, 8, 9, 10]),
          Subheader (lit ''Sequence Properties''),
          Metric (lit ''Sum of all terms'') [Fmt_g 55],
          Metric (lit ''Last term'') [Fmt_g 10]]"
    by (simp add: main_valid a sums display_short download_def)
  have page_b: "shown (main 5 (- 2) 5) =
       results_head 5 (- 2) 5
       @ [Code (comma_joined [5, 3, 1, - 1, - 3]),
          Subheader (lit ''Sequence Properties''),
          Metric (lit ''Sum of all terms'') [Fmt_g 5],
          Metric (lit ''Last term'') [Fmt_g (- 3)]]"
    by (simp add: main_valid b sums display_short download_def)
  show ?thesis
    unfolding a b using page_a page_b sums
    by (simp add: last_term_def getitem_def)
qed

text \<open>
  C7. For a valid request the page holds a download button exactly when the sequence has
  more than 10 terms. Its data is one line per term, \<^verbatim>\<open>Term <k + 1>: <term k>\<close> for
  \<open>k\<close> from 0, the lines joined by a newline, and its file name is
  \<^verbatim>\<open>arithmetic_sequence_<first_term>_<common_difference>_<num_terms>.txt\<close>.
\<close>

theorem download_offer:
  assumes "1 \<le> num_terms" and "num_terms \<le> 1000"
  shows "filter is_download (shown (main first_term common_difference num_terms)) =
         (if 10 < length (generate_arithmetic_sequence first_term common_difference num_terms)
          then [Download_button
                  (lit ([CHR 0xF0, CHR 0x9F, CHR 0x93, CHR 0xA5] @ '' Download sequence as text file''))
                  (join (lit [CHR 0x0A])
                     (map (\<lambda>k. lit ''Term '' @ lit (str_int (int k + 1)) @ lit '': ''
                                 @ [Fmt_g (first_term + of_nat k * common_difference)])
                        [0..<nat num_terms]))
                  (lit ''arithmetic_sequence_'' @ [Fmt_repr first_term] @ lit ''_''
                   @ [Fmt_repr common_difference] @ lit ''_'' @ lit (str_int num_terms)
                   @ lit ''.txt'')
                  (lit ''text/plain'')]
          else [])"
proof -
  let ?s = "generate_arithmetic_sequence first_term common_difference num_terms"
  have "filter is_download (shown (main first_term common_difference num_terms)) =
        download first_term common_difference num_terms ?s"
    using assms
    by (simp add: main_valid no_download_in_head no_download_in_display filter_download)
  then show ?thesis
    by (simp add: download_def sequence_text_generate)
qed

theorem download_offer_witness:
  "(1::int) \<le> 2 \<and> (2::int) \<le> 1000
   \<and> filter is_download (shown (main 1 1 2)) = []
   \<and> (1::int) \<le> 11 \<and> (11::int) \<le> 1000
   \<and> map file_name (filter is_download (shown (main 1 1 11))) =
       [lit ''arithmetic_sequence_'' @ [Fmt_repr 1] @ lit ''_'' @ [Fmt_repr 1] @ lit ''_11.txt'']
   \<and> map data (filter is_download (shown (main 1 1 11))) =
       [lit ''Term 1: '' @ [Fmt_g 1] @ lit [CHR 0x0A]
        @ lit ''Term 2: '' @ [Fmt_g 2] @ lit [CHR 0x0A]
        @ lit ''Term 3: '' @ [Fmt_g 3] @ lit [CHR 0x0A]
        @ lit ''Term 4: '' @ [Fmt_g 4] @ lit [CHR 0x0A]
        @ lit ''Term 5: '' @ [Fmt_g 5] @ lit [CHR 0x0A]
        @ lit ''Term 6: '' @ [Fmt_g 6] @ lit [CHR 0x0A]
        @ lit ''Term 7: '' @ [Fmt_g 7] @ lit [CHR 0x0A]
        @ lit ''Term 8: '' @ [Fmt_g 8] @ lit [CHR 0x0A]
        @ lit ''Term 9: '' @ [Fmt_g 9] @ lit [CHR 0x0A]
        @ lit ''Term 10: '' @ [Fmt_g 10] @ lit [CHR 0x0A]
        @ lit ''Term 11: '' @ [Fmt_g 11]]"
  using download_offer [of 2 1 1] download_offer [of 11 1 1]
  by (simp add: length_generate str_int_def str_nat.simps upt_rec [of _ "numeral n" for n] )

text \<open>
  C8. With one term the generator returns \<open>[first_term]\<close>, the last term main computes
  is \<^verbatim>\<open>sequence[0]\<close>, the first term, and the page shows it as the last term. With 1000
  terms main calls the generator, the list has 1000 elements and the subscript for the
  last term succeeds.
\<close>

theorem boundaries:
  "generate_arithmetic_sequence first_term common_difference 1 = [first_term]
   \<and> last_term (generate_arithmetic_sequence first_term common_difference 1) = Inr first_term
   \<and> getitem (generate_arithmetic_sequence first_term common_difference 1) 0 = Inr first_term
   \<and> shown (main first_term common_difference 1) =
       results_head first_term common_difference 1
       @ [Code [Fmt_g first_term],
          Subheader (lit ''Sequence Properties''),
          Metric (lit ''Sum of all terms'') [Fmt_g first_term],
          Metric (lit ''Last term'') [Fmt_g first_term]]
   \<and> generated (main first_term common_difference 1000) =
       Some (generate_arithmetic_sequence first_term common_difference 1000)
   \<and> length (generate_arithmetic_sequence first_term common_difference 1000) = 1000
   \<and> last_term (generate_arithmetic_sequence first_term common_difference 1000) =
       Inr (first_term + 999 * common_difference)"
proof -
  have one: "generate_arithmetic_sequence first_term common_difference 1 = [first_term]"
    by (rule generate_one)
  have page: "shown (main first_term common_difference 1) =
       results_head first_term common_difference 1
       @ [Code [Fmt_g first_term],
          Subheader (lit ''Sequence Properties''),
          Metric (lit ''Sum of all terms'') [Fmt_g first_term],
          Metric (lit ''Last term'') [Fmt_g first_term]]"
    by (simp add: main_valid one display_sequence_def comma_joined_def sum_py_def download_def)
  have big: "generated (main first_term common_difference 1000) =
       Some (generate_arithmetic_sequence first_term common_difference 1000)"
    by (simp add: main_valid)
  have last: "last_term (generate_arithmetic_sequence first_term common_difference 1000) =
       Inr (first_term + 999 * common_difference)"
    using last_term_generate [of 1000 first_term common_difference] by simp
  show ?thesis
    unfolding one using page big last
    by (simp add: last_term_def getitem_def length_generate)
qed

text \<open>
  C9. What a call of the generator returns, a list or an exception, does not depend on
  the store it runs in, so two calls with the same first term, common difference and
  number of terms return the same: in any two stores with the same room for the list,
  in particular when the second call runs in the store the first one left, and with
  different room as long as the list fits both times. A call builds its list in a fresh
  object and changes no object that was there before, so the list an earlier call
  returned is still what it was after a later call.
\<close>

theorem invocations_agree:
  "returned (generate_call room first_term common_difference num_terms store) =
   returned (generate_call room first_term common_difference num_terms store')
   \<and> returned (generate_call room first_term common_difference num_terms
        (snd (generate_call room first_term common_difference num_terms store))) =
     returned (generate_call room first_term common_difference num_terms store)
   \<and> (nat num_terms \<le> room \<and> nat num_terms \<le> room' \<longrightarrow>
        returned (generate_call room first_term common_difference num_terms store) =
        returned (generate_call room' first_term common_difference num_terms store'))
   \<and> (\<forall>q < length store.
        snd (generate_call room first_term common_difference num_terms store) ! q = store ! q)
   \<and> (\<forall>p. fst (generate_call room first_term common_difference num_terms store) = Inr p \<longrightarrow>
        snd (generate_call room first_term common_difference num_terms
          (snd (generate_call room first_term common_difference num_terms store))) ! p =
        snd (generate_call room first_term common_difference num_terms store) ! p)"
proof (intro conjI allI impI)
  show "returned (generate_call room first_term common_difference num_terms store) =
        returned (generate_call room first_term common_difference num_terms store')"
    by (rule generate_call_same)
  show "returned (generate_call room first_term common_difference num_terms
          (snd (generate_call room first_term common_difference num_terms store))) =
        returned (generate_call room first_term common_difference num_terms store)"
    by (rule generate_call_same)
next
  assume "nat num_terms \<le> room \<and> nat num_terms \<le> room'"
  then show "returned (generate_call room first_term common_difference num_terms store) =
             returned (generate_call room' first_term common_difference num_terms store')"
    by (simp add: generate_call_rooms)
next
  fix q assume "q < length store"
  then show "snd (generate_call room first_term common_difference num_terms store) ! q = store ! q"
    by (rule generate_call_frame(2))
next
  fix p
  assume "fst (generate_call room first_term common_difference num_terms store) = Inr p"
  then have "p = length store"
    by (rule generate_call_address)
  then have "p < length (snd (generate_call room first_term common_difference num_terms store))"
    by (simp add: generate_call_frame(1))
  then show "snd (generate_call room first_term common_difference num_terms
          (snd (generate_call room first_term common_difference num_terms store))) ! p =
        snd (generate_call room first_term common_difference num_terms store) ! p"
    by (rule generate_call_frame(2))
qed

theorem invocations_agree_witness:
  "returned (generate_call 3 (Finite 1) (Finite 1) 3 [[Finite 7]]) =
     Inr [Finite 1, Finite 2, Finite 3]
   \<and> returned (generate_call 3 (Finite 1) (Finite 1) 3 []) = Inr [Finite 1, Finite 2, Finite 3]
   \<and> returned (generate_call 5 (Finite 1) (Finite 1) 3 []) = Inr [Finite 1, Finite 2, Finite 3]
   \<and> generate_call 3 (Finite 1) (Finite 1) 3 [[Finite 7]] =
     (Inr 1, [[Finite 7], [Finite 1, Finite 2, Finite 3]])
   \<and> generate_call 3 (Finite 1) (Finite 1) 3 [[Finite 7], [Finite 1, Finite 2, Finite 3]] =
     (Inr 2, [[Finite 7], [Finite 1, Finite 2, Finite 3], [Finite 1, Finite 2, Finite 3]])"
proof -
  have range: "[0..2] = [0, 1, 2 :: int]"
    by (simp add: upto_rec1)
  have call: "generate_call room (Finite 1) (Finite 1) 3 store =
        (Inr (length store), store @ [[Finite 1, Finite 2, Finite 3]])"
    if "3 \<le> room" for room store
    using that generate_call_small [of 3 room "Finite 1" "Finite 1" store]
    by (simp add: range round_f64_small round_f64_numeral)
  show ?thesis
    using invocations_agree [of 3 "Finite 1" "Finite 1" 3 "[[Finite 7]]" "[]" 5]
    by (simp add: call)
qed

text \<open>
  C10, as stated, fails: for \<open>num_terms \<ge> 0\<close> the generator can raise. With memory for
  \<open>2 ^ 1024\<close> elements and \<open>num_terms = 2 ^ 1024\<close> the counter reaches \<open>float_limit\<close>,
  which \<^verbatim>\<open>i * common_difference\<close> cannot convert to a float: OverflowError. On any real
  machine memory runs out long before, which raises as well: with room for 3 elements,
  4 terms end in MemoryError.
\<close>

theorem call_can_raise:
  "returned (generate_call (2 ^ 1024) (Finite 1) (Finite 1) (2 ^ 1024) []) = Inl OverflowError
   \<and> returned (generate_call 3 (Finite 1) (Finite 1) 4 []) = Inl MemoryError"
proof -
  have "returned (generate_call (2 ^ 1024) (Finite 1) (Finite 1) (2 ^ 1024) []) =
        Inl OverflowError"
    by (rule generate_call_counter_overflow) (simp_all add: float_limit_def)
  moreover have "returned (generate_call 3 (Finite 1) (Finite 1) 4 []) = Inl MemoryError"
    by (rule generate_call_out_of_memory) (simp_all add: float_limit_def)
  ultimately show ?thesis by simp
qed

text \<open>
  C10, amended. The call ends for every integer \<open>num_terms\<close> (the termination proof of
  \<open>call_loop\<close>). For \<open>num_terms \<le> 0\<close> it returns the empty list and raises nothing. For
  \<open>num_terms \<ge> 0\<close> it returns a list of \<open>num_terms\<close> elements when the list fits in
  memory and \<open>num_terms \<le> float_limit\<close>, that is \<open>2 ^ 1024 - 2 ^ 970\<close>; otherwise it
  raises: MemoryError when memory runs out first, OverflowError when the counter reaches
  \<open>float_limit\<close> first.
\<close>

theorem call_returns_or_raises:
  "(num_terms \<le> 0 \<longrightarrow>
      returned (generate_call room first_term common_difference num_terms store) = Inr [])
   \<and> (0 \<le> num_terms \<and> nat num_terms \<le> room \<and> num_terms \<le> float_limit \<longrightarrow>
      (\<exists>sequence.
         returned (generate_call room first_term common_difference num_terms store) = Inr sequence
         \<and> int (length sequence) = num_terms))
   \<and> (int room < num_terms \<and> int room < float_limit \<longrightarrow>
      returned (generate_call room first_term common_difference num_terms store) =
      Inl MemoryError)
   \<and> (float_limit < num_terms \<and> float_limit \<le> int room \<longrightarrow>
      returned (generate_call room first_term common_difference num_terms store) =
      Inl OverflowError)"
proof (intro conjI impI)
  assume "num_terms \<le> 0"
  then show "returned (generate_call room first_term common_difference num_terms store) = Inr []"
    by (simp add: generate_call_nonpositive)
next
  assume "0 \<le> num_terms \<and> nat num_terms \<le> room \<and> num_terms \<le> float_limit"
  then have "generate_call room first_term common_difference num_terms store =
        (Inr (length store),
         store @ [map (\<lambda>k. projr (term_of first_term common_difference k)) [0..num_terms - 1]])"
    by (intro generate_call_below_threshold) simp_all
  moreover have "int (length (map (\<lambda>k. projr (term_of first_term common_difference k))
                           [0..num_terms - 1])) = num_terms"
    using \<open>0 \<le> num_terms \<and> nat num_terms \<le> room \<and> num_terms \<le> float_limit\<close> by simp
  ultimately show "\<exists>sequence.
         returned (generate_call room first_term common_difference num_terms store) = Inr sequence
         \<and> int (length sequence) = num_terms"
    by simp
next
  assume "int room < num_terms \<and> int room < float_limit"
  then show "returned (generate_call room first_term common_difference num_terms store) =
             Inl MemoryError"
    by (simp add: generate_call_out_of_memory)
next
  assume "float_limit < num_terms \<and> float_limit \<le> int room"
  then show "returned (generate_call room first_term common_difference num_terms store) =
             Inl OverflowError"
    by (simp add: generate_call_counter_overflow)
qed

theorem call_returns_or_raises_witness:
  "returned (generate_call 0 (Finite 5) (Finite (- 2)) (- 3) []) = Inr []
   \<and> (\<exists>sequence. returned (generate_call 5 (Finite 5) (Finite (- 2)) 2 []) = Inr sequence
         \<and> int (length sequence) = 2)
   \<and> returned (generate_call 3 (Finite 5) (Finite (- 2)) 4 []) = Inl MemoryError
   \<and> returned (generate_call (2 ^ 1024) (Finite 5) (Finite (- 2)) (2 ^ 1024) []) =
       Inl OverflowError"
  using call_returns_or_raises [of "- 3" 0 "Finite 5" "Finite (- 2)" "[]"]
    call_returns_or_raises [of 2 5 "Finite 5" "Finite (- 2)" "[]"]
    call_returns_or_raises [of 4 3 "Finite 5" "Finite (- 2)" "[]"]
    call_returns_or_raises [of "2 ^ 1024" "2 ^ 1024" "Finite 5" "Finite (- 2)" "[]"]
  by (simp add: float_limit_def)

end
